theory Spec2Isabelle
  imports Complex_Main "HOL-Library.AList" "HOL-Library.Multiset" "HOL-Library.Word"
begin

section \<open>Python values shared by the modules\<close>

text \<open>
  Exceptions of the Python code are values. A fallible call returns \<open>exn + 'a\<close>, with
  \<open>Inl\<close> for the raised exception.
\<close>

datatype exn =
    OSError | JSONDecodeError | TypeError | ValidationError | RuntimeError string | MqttError

text \<open>
  A JSON document, as \<open>json.load\<close> returns it and \<open>json.dump\<close> takes it. The pairs of a
  \<open>JObj\<close> are the items of a Python \<open>dict\<close> in insertion order.
\<close>

datatype json =
    JNull
  | JBool bool
  | JInt int
  | JFloat real
  | JStr string
  | JArr "json list"
  | JObj "(string \<times> json) list"

section \<open>pyfluff/furby\_cache.py\<close>

subsection \<open>The cached entries\<close>

text \<open>
  \<open>KnownFurby\<close> and \<open>KnownFurbiesConfig\<close> are pydantic models imported from
  \<open>pyfluff.models\<close>. The fields are the ones \<open>add_or_update\<close> passes to the constructor,
  with the types of its signature; \<open>last_seen\<close> holds \<open>time.time()\<close>, a finite float,
  read here as a real number. \<open>KnownFurbiesConfig\<close> has the single field \<open>furbies\<close>, a
  \<open>dict\<close> from address to entry, kept as an association list in insertion order.
\<close>

record known_furby =
  address :: string
  last_seen :: real
  name :: "string option"
  name_id :: "int option"
  device_name :: "string option"
  firmware_revision :: "string option"

type_synonym known_furbies_config = "(string \<times> known_furby) list"

subsection \<open>Serialisation: \<open>model_dump\<close>\<close>

definition dump_opt_str :: "string option \<Rightarrow> json" where
  "dump_opt_str v = (case v of None \<Rightarrow> JNull | Some s \<Rightarrow> JStr s)"

definition dump_opt_int :: "int option \<Rightarrow> json" where
  "dump_opt_int v = (case v of None \<Rightarrow> JNull | Some i \<Rightarrow> JInt i)"

definition KnownFurby_dump :: "known_furby \<Rightarrow> json" where
  "KnownFurby_dump f = JObj
     [(''address'', JStr (address f)),
      (''last_seen'', JFloat (last_seen f)),
      (''name'', dump_opt_str (name f)),
      (''name_id'', dump_opt_int (name_id f)),
      (''device_name'', dump_opt_str (device_name f)),
      (''firmware_revision'', dump_opt_str (firmware_revision f))]"

definition model_dump :: "known_furbies_config \<Rightarrow> json" where
  "model_dump cfg = JObj [(''furbies'', JObj (map (\<lambda>(k, f). (k, KnownFurby_dump f)) cfg))]"

subsection \<open>The file system and the event loop\<close>

text \<open>
  What a path holds, as far as \<open>_load\<close> can tell: nothing (\<open>None\<close>), something that
  \<open>open\<close> cannot read (a directory, no permission), text that \<open>json.load\<close> rejects, or a
  JSON document. \<open>json.dump\<close> followed by \<open>json.load\<close> gives the document back; that is
  the standard library's contract and is built into \<open>JsonDoc\<close>.
\<close>

datatype disk_entry = Unreadable | NotJson | JsonDoc json

text \<open>
  A task created by \<open>asyncio.create_task(delayed_save())\<close>: \<open>Waiting\<close> until its sleep and
  save are over, \<open>Cancelling\<close> once \<open>cancel()\<close> was called on it and until the loop has
  delivered the \<open>CancelledError\<close>, \<open>Done\<close> afterwards (\<open>task.done()\<close> is true).
\<close>

datatype task_status = Waiting | Cancelling | Done

text \<open>
  The world outside the cache object. For a path, \<open>stat_fails\<close> says that \<open>stat\<close> raises an
  \<open>OSError\<close> other than "not found" (a name that is too long, a parent directory that may
  not be searched), \<open>mkdir_fails\<close> that the parent directory cannot be made, and
  \<open>open_fails\<close> that the file cannot be opened for writing.
\<close>

record world =
  disk :: "string \<Rightarrow> disk_entry option"
  stat_fails :: "string \<Rightarrow> bool"
  mkdir_fails :: "string \<Rightarrow> bool"
  open_fails :: "string \<Rightarrow> bool"
  loop_running :: bool
  tasks :: "task_status list"

record furby_cache =
  cache_file :: string
  config :: known_furbies_config
  save_pending :: bool
  save_task :: "nat option"
  save_delay :: real

text \<open>\<open>Path.exists()\<close>: a \<open>stat\<close> error other than "not found" is raised again.\<close>

definition exists_file :: "world \<Rightarrow> string \<Rightarrow> exn + bool" where
  "exists_file w path =
     (if stat_fails w path then Inl OSError else Inr (disk w path \<noteq> None))"

definition read_json :: "world \<Rightarrow> string \<Rightarrow> exn + json" where
  "read_json w path =
     (case disk w path of
        None \<Rightarrow> Inl OSError
      | Some Unreadable \<Rightarrow> Inl OSError
      | Some NotJson \<Rightarrow> Inl JSONDecodeError
      | Some (JsonDoc j) \<Rightarrow> Inr j)"

text \<open>\<open>self.cache_file.parent.mkdir(parents=True, exist_ok=True)\<close>.\<close>

definition mkdir_parent :: "world \<Rightarrow> string \<Rightarrow> exn + unit" where
  "mkdir_parent w path = (if mkdir_fails w path then Inl OSError else Inr ())"

text \<open>Opening the file for writing and writing the document, as one step that either
  raises and leaves the disk alone or replaces the file.\<close>

definition open_write :: "world \<Rightarrow> string \<Rightarrow> json \<Rightarrow> exn + world" where
  "open_write w path j =
     (if open_fails w path then Inl OSError
      else Inr (w\<lparr>disk := (disk w)(path \<mapsto> JsonDoc j)\<rparr>))"

text \<open>
  A turn of the event loop while a coroutine is suspended: the tasks on which \<open>cancel()\<close>
  was called get their \<open>CancelledError\<close> and are over. No sleep is taken to end and no
  other coroutine of the program to run during the turn.
\<close>

definition loop_turn :: "world \<Rightarrow> world" where
  "loop_turn w = w\<lparr>tasks := map (\<lambda>s. if s = Cancelling then Done else s) (tasks w)\<rparr>"

subsection \<open>Construction\<close>

text \<open>
  \<open>_load\<close>. \<open>KnownFurbiesConfig(**data)\<close> is the constructor of the pydantic model that
  \<open>pyfluff.models\<close> declares; how it validates and coerces is the parameter \<open>validate\<close>.
  The test \<open>self.cache_file.exists()\<close> stands before the \<open>try\<close>, so what it raises leaves
  \<open>_load\<close>; everything after it is inside the \<open>try\<close>, whose handler catches every
  \<open>Exception\<close> and starts with an empty cache.
\<close>

definition load ::
  "(json \<Rightarrow> exn + known_furbies_config) \<Rightarrow> world \<Rightarrow> string \<Rightarrow> exn + known_furbies_config" where
  "load validate w path =
     (case exists_file w path of
        Inl e \<Rightarrow> Inl e
      | Inr False \<Rightarrow> Inr []
      | Inr True \<Rightarrow>
          (case read_json w path of
             Inl e \<Rightarrow> Inr []
           | Inr data \<Rightarrow>
               (case validate data of
                  Inl e \<Rightarrow> Inr []
                | Inr cfg \<Rightarrow> Inr cfg)))"

definition init ::
  "(json \<Rightarrow> exn + known_furbies_config) \<Rightarrow> world \<Rightarrow> string \<Rightarrow> exn + furby_cache" where
  "init validate w path =
     (case load validate w path of
        Inl e \<Rightarrow> Inl e
      | Inr cfg \<Rightarrow>
          Inr \<lparr>cache_file = path, config = cfg, save_pending = False,
               save_task = None, save_delay = 1\<rparr>)"

subsection \<open>Saving\<close>

text \<open>
  \<open>_save_async\<close>: any exception is logged and swallowed. \<open>mkdir\<close> runs at once; opening and
  writing through \<open>aiofiles\<close> are awaited, so the loop takes a turn before they succeed or
  raise.
\<close>

definition save_async :: "world \<Rightarrow> furby_cache \<Rightarrow> world" where
  "save_async w c =
     (case mkdir_parent w (cache_file c) of
        Inl e \<Rightarrow> w
      | Inr u \<Rightarrow>
          (case open_write (loop_turn w) (cache_file c) (model_dump (config c)) of
             Inl e \<Rightarrow> loop_turn w
           | Inr w' \<Rightarrow> w'))"

definition task_done :: "world \<Rightarrow> nat \<Rightarrow> bool" where
  "task_done w t = (tasks w ! t = Done)"

text \<open>\<open>task.cancel()\<close>: no effect on a task that is done.\<close>

definition cancel :: "world \<Rightarrow> nat \<Rightarrow> world" where
  "cancel w t = (if task_done w t then w else w\<lparr>tasks := (tasks w)[t := Cancelling]\<rparr>)"

definition create_task :: "world \<Rightarrow> nat \<times> world" where
  "create_task w = (length (tasks w), w\<lparr>tasks := tasks w @ [Waiting]\<rparr>)"

text \<open>The guard shared by \<open>_schedule_save\<close> and \<open>flush\<close>:
  \<open>if self._save_task is not None and not self._save_task.done(): self._save_task.cancel()\<close>.\<close>

definition cancel_save_task :: "world \<Rightarrow> furby_cache \<Rightarrow> world" where
  "cancel_save_task w c =
     (case save_task c of
        None \<Rightarrow> w
      | Some t \<Rightarrow> if \<not> task_done w t then cancel w t else w)"

definition schedule_save :: "world \<Rightarrow> furby_cache \<Rightarrow> world \<times> furby_cache" where
  "schedule_save w c =
     (let w1 = cancel_save_task w c;
          c1 = c\<lparr>save_pending := True\<rparr>;
          (t, w2) = create_task w1
      in (w2, c1\<lparr>save_task := Some t\<rparr>))"

text \<open>The write of the synchronous fallback: \<open>mkdir\<close>, \<open>open\<close> and \<open>json.dump\<close>, with no await.\<close>

definition write_json :: "world \<Rightarrow> string \<Rightarrow> json \<Rightarrow> exn + world" where
  "write_json w path j =
     (case mkdir_parent w path of
        Inl e \<Rightarrow> Inl e
      | Inr u \<Rightarrow> open_write w path j)"

text \<open>\<open>_save\<close>: \<open>asyncio.get_running_loop()\<close> raises \<open>RuntimeError\<close> when no loop runs, and the
  handler writes the file at once, swallowing any exception of the write.\<close>

definition save :: "world \<Rightarrow> furby_cache \<Rightarrow> world \<times> furby_cache" where
  "save w c =
     (if loop_running w then schedule_save w c
      else
        (case write_json w (cache_file c) (model_dump (config c)) of
           Inl e \<Rightarrow> (w, c)
         | Inr w' \<Rightarrow> (w', c)))"

subsection \<open>Operations\<close>

text \<open>Every operation takes the world and the cache and returns its result with both.
  \<open>now\<close> is what \<open>time.time()\<close> returns during the call (for a new entry the constructor's
  \<open>last_seen\<close> is overwritten by the later assignment).\<close>

definition add_or_update ::
  "real \<Rightarrow> string \<Rightarrow> string option \<Rightarrow> string option \<Rightarrow> int option \<Rightarrow> string option \<Rightarrow>
   world \<Rightarrow> furby_cache \<Rightarrow> known_furby \<times> world \<times> furby_cache" where
  "add_or_update now addr dev_name new_name new_id firmware w c =
     (let furby0 =
            (case map_of (config c) addr of
               Some f \<Rightarrow> f
             | None \<Rightarrow> \<lparr>address = addr, last_seen = now, name = None, name_id = None,
                        device_name = None, firmware_revision = None\<rparr>);
          furby1 = (case dev_name of None \<Rightarrow> furby0 | Some d \<Rightarrow> furby0\<lparr>device_name := Some d\<rparr>);
          furby2 = (case new_name of None \<Rightarrow> furby1 | Some n \<Rightarrow> furby1\<lparr>name := Some n\<rparr>);
          furby3 = (case new_id of None \<Rightarrow> furby2 | Some i \<Rightarrow> furby2\<lparr>name_id := Some i\<rparr>);
          furby4 = (case firmware of None \<Rightarrow> furby3 | Some r \<Rightarrow> furby3\<lparr>firmware_revision := Some r\<rparr>);
          furby = furby4\<lparr>last_seen := now\<rparr>;
          (w', c') = save w (c\<lparr>config := AList.update addr furby (config c)\<rparr>)
      in (furby, w', c'))"

definition get :: "string \<Rightarrow> world \<Rightarrow> furby_cache \<Rightarrow> known_furby option \<times> world \<times> furby_cache" where
  "get addr w c = (map_of (config c) addr, w, c)"

text \<open>\<open>list.sort(key=..., reverse=True)\<close>: a stable sort in which equal keys keep their
  order, done as CPython does it, by sorting the reversed list and reversing the result.\<close>

definition sort_reverse :: "('a \<Rightarrow> real) \<Rightarrow> 'a list \<Rightarrow> 'a list" where
  "sort_reverse key xs = rev (sort_key key (rev xs))"

definition get_all :: "world \<Rightarrow> furby_cache \<Rightarrow> known_furby list \<times> world \<times> furby_cache" where
  "get_all w c = (sort_reverse last_seen (map snd (config c)), w, c)"

definition remove :: "string \<Rightarrow> world \<Rightarrow> furby_cache \<Rightarrow> bool \<times> world \<times> furby_cache" where
  "remove addr w c =
     (if map_of (config c) addr \<noteq> None then
        (let (w', c') = save w (c\<lparr>config := AList.delete addr (config c)\<rparr>)
         in (True, w', c'))
      else (False, w, c))"

definition clear :: "world \<Rightarrow> furby_cache \<Rightarrow> world \<times> furby_cache" where
  "clear w c = save w (c\<lparr>config := []\<rparr>)"

definition get_addresses :: "world \<Rightarrow> furby_cache \<Rightarrow> string list \<times> world \<times> furby_cache" where
  "get_addresses w c = (map fst (config c), w, c)"

definition update_name ::
  "real \<Rightarrow> string \<Rightarrow> string \<Rightarrow> int \<Rightarrow> world \<Rightarrow> furby_cache \<Rightarrow> world \<times> furby_cache" where
  "update_name now addr new_name new_id w c =
     (case map_of (config c) addr of
        Some f \<Rightarrow>
          save w (c\<lparr>config :=
            AList.update addr (f\<lparr>name := Some new_name, name_id := Some new_id, last_seen := now\<rparr>)
              (config c)\<rparr>)
      | None \<Rightarrow> (w, c))"

definition get_most_recent ::
  "world \<Rightarrow> furby_cache \<Rightarrow> known_furby option \<times> world \<times> furby_cache" where
  "get_most_recent w c =
     (let (furbies, w', c') = get_all w c
      in ((case furbies of [] \<Rightarrow> None | f # _ \<Rightarrow> Some f), w', c'))"

text \<open>\<open>flush\<close>: the cancellation it requests is delivered during the loop's turn inside
  \<open>_save_async\<close>.\<close>

definition flush :: "world \<Rightarrow> furby_cache \<Rightarrow> world \<times> furby_cache" where
  "flush w c =
     (let w1 = cancel_save_task w c;
          w2 = save_async w1 c
      in (w2, c\<lparr>save_pending := False\<rparr>))"

subsection \<open>The event loop running the delayed saves\<close>

text \<open>
  \<open>delayed_save\<close> of task \<open>t\<close> coming to its end: the sleep is over, \<open>_save_async\<close> writes the
  configuration of that moment and the flag is reset. A task on which \<open>cancel()\<close> was called
  gets the \<open>CancelledError\<close> instead, which \<open>delayed_save\<close> passes over.
\<close>

definition delayed_save :: "nat \<Rightarrow> world \<Rightarrow> furby_cache \<Rightarrow> world \<times> furby_cache" where
  "delayed_save t w c =
     (if t < length (tasks w) \<and> tasks w ! t = Waiting then
        (let w1 = save_async w c
         in (w1\<lparr>tasks := (tasks w1)[t := Done]\<rparr>, c\<lparr>save_pending := False\<rparr>))
      else if t < length (tasks w) \<and> tasks w ! t = Cancelling then
        (w\<lparr>tasks := (tasks w)[t := Done]\<rparr>, c)
      else (w, c))"

text \<open>What can happen to a cache while a program runs: calls of its methods and, in
  between, tasks of the loop coming to their end.\<close>

datatype action =
    AddOrUpdate real string "string option" "string option" "int option" "string option"
  | Remove string
  | Clear
  | UpdateName real string string int
  | Get string
  | GetAll
  | GetAddresses
  | GetMostRecent
  | Flush
  | TaskRuns nat

fun exec :: "action \<Rightarrow> world \<times> furby_cache \<Rightarrow> world \<times> furby_cache" where
  "exec (AddOrUpdate now a d n i f) (w, c) = snd (add_or_update now a d n i f w c)"
| "exec (Remove a) (w, c) = snd (remove a w c)"
| "exec Clear (w, c) = clear w c"
| "exec (UpdateName now a n i) (w, c) = update_name now a n i w c"
| "exec (Get a) (w, c) = snd (get a w c)"
| "exec GetAll (w, c) = snd (get_all w c)"
| "exec GetAddresses (w, c) = snd (get_addresses w c)"
| "exec GetMostRecent (w, c) = snd (get_most_recent w c)"
| "exec Flush (w, c) = flush w c"
| "exec (TaskRuns t) (w, c) = delayed_save t w c"

fun run :: "action list \<Rightarrow> world \<times> furby_cache \<Rightarrow> world \<times> furby_cache" where
  "run [] s = s"
| "run (a # as) s = run as (exec a s)"

subsection \<open>A small cache to run the operations on\<close>

definition demo_world :: world where
  "demo_world = \<lparr>disk = (\<lambda>_. None), stat_fails = (\<lambda>path. 255 < length path),
     mkdir_fails = (\<lambda>_. False), open_fails = (\<lambda>_. False), loop_running = False, tasks = []\<rparr>"

definition demo_furby :: "string \<Rightarrow> real \<Rightarrow> known_furby" where
  "demo_furby addr t = \<lparr>address = addr, last_seen = t, name = None, name_id = None,
     device_name = Some ''Furby'', firmware_revision = None\<rparr>"

definition demo_cache :: furby_cache where
  "demo_cache = \<lparr>cache_file = ''known_furbies.json'',
     config = [(''AA'', demo_furby ''AA'' 10), (''BB'', demo_furby ''BB'' 30), (''CC'', demo_furby ''CC'' 20)],
     save_pending = False, save_task = None, save_delay = 1\<rparr>"

subsection \<open>Debouncing\<close>

text \<open>The delayed saves that are scheduled and neither cancelled nor over.\<close>

definition pending_tasks :: "world \<Rightarrow> nat list" where
  "pending_tasks w = filter (\<lambda>t. tasks w ! t = Waiting) [0..<length (tasks w)]"

text \<open>\<open>_save_task\<close> refers to a task of the loop, and it is the only one that may still be
  waiting.\<close>

definition debounced :: "world \<Rightarrow> furby_cache \<Rightarrow> bool" where
  "debounced w c =
     ((case save_task c of None \<Rightarrow> True | Some t \<Rightarrow> t < length (tasks w)) \<and>
      list_all (\<lambda>t. save_task c = Some t) (pending_tasks w))"

text \<open>A mutation under a running loop: the task that \<open>_save_task\<close> referred to is cancelled
  unless it was over, no earlier task is left waiting, and the one new task is the
  pending save.\<close>

definition rescheduled :: "world \<Rightarrow> furby_cache \<Rightarrow> world \<times> furby_cache \<Rightarrow> bool" where
  "rescheduled w c s =
     (case s of (w', c') \<Rightarrow>
        (case save_task c of
           None \<Rightarrow> True
         | Some t \<Rightarrow> tasks w ! t = Done \<or> tasks w' ! t = Cancelling) \<and>
        tasks w' ! length (tasks w) = Waiting \<and>
        pending_tasks w' = [length (tasks w)] \<and>
        save_task c' = Some (length (tasks w)) \<and>
        save_pending c')"

definition loop_world :: world where
  "loop_world = demo_world\<lparr>loop_running := True\<rparr>"


section \<open>pyfluff/homeassistant.py\<close>

subsection \<open>The broker side\<close>

text \<open>
  What \<open>aiomqtt\<close> does is outside the class: the messages published so far, the topics
  subscribed to, whether the broker can be reached and whether the connection is up
  (\<open>publish\<close> and \<open>subscribe\<close> raise \<open>MqttError\<close> when it is not), and the number of
  message handler tasks created on the loop (true while a task is not cancelled).
\<close>

datatype payload = Text string | Json json

record message =
  topic :: string
  payload :: payload
  retain :: bool

record mqtt_net =
  reachable :: bool
  up :: bool
  published :: "message list"
  subscribed :: "string list"
  handler_tasks :: "bool list"

text \<open>An \<open>aiomqtt.Client\<close>, as the keyword arguments it was made from.\<close>

record mqtt_client =
  hostname :: string
  client_port :: int
  credentials :: "(string \<times> string) option"

definition publish :: "mqtt_net \<Rightarrow> string \<Rightarrow> payload \<Rightarrow> bool \<Rightarrow> exn + mqtt_net" where
  "publish net t p r =
     (if up net then Inr (net\<lparr>published := published net @ [\<lparr>topic = t, payload = p, retain = r\<rparr>]\<rparr>)
      else Inl MqttError)"

definition subscribe :: "mqtt_net \<Rightarrow> string \<Rightarrow> exn + mqtt_net" where
  "subscribe net t =
     (if up net then Inr (net\<lparr>subscribed := subscribed net @ [t]\<rparr>) else Inl MqttError)"

text \<open>Awaiting one call after the other: the first exception ends the sequence.\<close>

fun publish_all :: "mqtt_net \<Rightarrow> (string \<times> payload \<times> bool) list \<Rightarrow> exn + mqtt_net" where
  "publish_all net [] = Inr net"
| "publish_all net ((t, p, r) # ms) =
     (case publish net t p r of
        Inl e \<Rightarrow> Inl e
      | Inr net' \<Rightarrow> publish_all net' ms)"

fun subscribe_all :: "mqtt_net \<Rightarrow> string list \<Rightarrow> exn + mqtt_net" where
  "subscribe_all net [] = Inr net"
| "subscribe_all net (t # ts) =
     (case subscribe net t of
        Inl e \<Rightarrow> Inl e
      | Inr net' \<Rightarrow> subscribe_all net' ts)"

subsection \<open>\<open>str\<close> of an integer\<close>

fun str_nat :: "nat \<Rightarrow> string" where
  "str_nat n =
     (if n < 10 then [''0123456789'' ! n]
      else str_nat (n div 10) @ [''0123456789'' ! (n mod 10)])"

declare str_nat.simps [simp del]

definition str_int :: "int \<Rightarrow> string" where
  "str_int i = (if i < 0 then CHR ''-'' # str_nat (nat (- i)) else str_nat (nat i))"

subsection \<open>The client object\<close>

record 'cb ha_mqtt =
  broker :: string
  port :: int
  username :: "string option"
  password :: "string option"
  device_id :: string
  device_name :: string
  client :: "mqtt_client option"
  running :: bool
  subscribe_task :: "nat option"
  discovery_prefix :: string
  base_topic :: string
  command_callback :: "'cb option"

definition HomeAssistantMQTT ::
  "string \<Rightarrow> int \<Rightarrow> string option \<Rightarrow> string option \<Rightarrow> string \<Rightarrow> string \<Rightarrow> 'cb ha_mqtt" where
  "HomeAssistantMQTT b p u pw dev_id dev_name =
     \<lparr>broker = b, port = p, username = u, password = pw, device_id = dev_id,
      device_name = dev_name, client = None, running = False, subscribe_task = None,
      discovery_prefix = ''homeassistant'', base_topic = ''pyfluff/'' @ dev_id,
      command_callback = None\<rparr>"

text \<open>In a condition, a \<open>str | None\<close> counts as true unless it is \<open>None\<close> or empty.\<close>

definition get_device_info :: "'cb ha_mqtt \<Rightarrow> string option \<Rightarrow> json" where
  "get_device_info ha mac_address =
     JObj ([(''identifiers'', JArr [JStr (device_id ha)]),
            (''name'', JStr (device_name ha)),
            (''manufacturer'', JStr ''Hasbro''),
            (''model'', JStr ''Furby Connect''),
            (''sw_version'', JStr ''1.0.0'')] @
           (case mac_address of
              None \<Rightarrow> []
            | Some mac \<Rightarrow>
                if mac \<noteq> [] then [(''connections'', JArr [JArr [JStr ''mac'', JStr mac]])]
                else []))"

text \<open>\<open>connect\<close>: the client is stored before \<open>__aenter__\<close> is awaited, and an exception of
  the latter is raised again after logging.\<close>

definition connect :: "'cb ha_mqtt \<Rightarrow> mqtt_net \<Rightarrow> (exn + unit) \<times> 'cb ha_mqtt \<times> mqtt_net" where
  "connect ha net =
     (let cl = \<lparr>hostname = broker ha, client_port = port ha,
                credentials =
                  (case (username ha, password ha) of
                     (Some u, Some pw) \<Rightarrow> if u \<noteq> [] \<and> pw \<noteq> [] then Some (u, pw) else None
                   | _ \<Rightarrow> None)\<rparr>;
          ha1 = ha\<lparr>client := Some cl\<rparr>
      in if reachable net then (Inr (), ha1\<lparr>running := True\<rparr>, net\<lparr>up := True\<rparr>)
         else (Inl MqttError, ha1, net))"

text \<open>\<open>disconnect\<close>: the handler task, if there is one, is cancelled and awaited; an exception
  of \<open>__aexit__\<close> is logged and swallowed.\<close>

definition disconnect :: "'cb ha_mqtt \<Rightarrow> mqtt_net \<Rightarrow> (exn + unit) \<times> 'cb ha_mqtt \<times> mqtt_net" where
  "disconnect ha net =
     (let ha1 = ha\<lparr>running := False\<rparr>;
          net1 = (case subscribe_task ha1 of
                    None \<Rightarrow> net
                  | Some t \<Rightarrow> net\<lparr>handler_tasks := (handler_tasks net)[t := False]\<rparr>)
      in case client ha1 of
           None \<Rightarrow> (Inr (), ha1, net1)
         | Some cl \<Rightarrow> (Inr (), ha1\<lparr>client := None\<rparr>, net1\<lparr>up := False\<rparr>))"

subsection \<open>Discovery\<close>

definition light_discovery :: "'cb ha_mqtt \<Rightarrow> json \<Rightarrow> string \<times> payload \<times> bool" where
  "light_discovery ha device_info =
     (discovery_prefix ha @ ''/light/'' @ device_id ha @ ''/antenna/config'',
      Json (JObj
        [(''name'', JStr ''Antenna LED''),
         (''unique_id'', JStr (device_id ha @ ''_antenna_led'')),
         (''device'', device_info),
         (''command_topic'', JStr (base_topic ha @ ''/antenna/set'')),
         (''state_topic'', JStr (base_topic ha @ ''/antenna/state'')),
         (''rgb_command_topic'', JStr (base_topic ha @ ''/antenna/rgb/set'')),
         (''rgb_state_topic'', JStr (base_topic ha @ ''/antenna/rgb/state'')),
         (''rgb_command_template'', JStr ''{{ red }},{{ green }},{{ blue }}''),
         (''rgb_value_template'', JStr ''{{ value }}''),
         (''optimistic'', JBool False),
         (''qos'', JInt 1)]),
      True)"

definition connection_sensor_discovery :: "'cb ha_mqtt \<Rightarrow> json \<Rightarrow> string \<times> payload \<times> bool" where
  "connection_sensor_discovery ha device_info =
     (discovery_prefix ha @ ''/binary_sensor/'' @ device_id ha @ ''/connection/config'',
      Json (JObj
        [(''name'', JStr ''Connection''),
         (''unique_id'', JStr (device_id ha @ ''_connection'')),
         (''device'', device_info),
         (''state_topic'', JStr (base_topic ha @ ''/connection/state'')),
         (''icon'', JStr ''mdi:bluetooth''),
         (''qos'', JInt 1)]),
      True)"

definition moods :: "(string \<times> string \<times> string) list" where
  "moods =
     [(''excitedness'', ''Excitedness'', ''mdi:emoticon-happy''),
      (''displeasedness'', ''Displeasedness'', ''mdi:emoticon-sad''),
      (''tiredness'', ''Tiredness'', ''mdi:sleep''),
      (''fullness'', ''Fullness'', ''mdi:food''),
      (''wellness'', ''Wellness'', ''mdi:heart-pulse'')]"

definition mood_discovery ::
  "'cb ha_mqtt \<Rightarrow> json \<Rightarrow> string \<times> string \<times> string \<Rightarrow> string \<times> payload \<times> bool" where
  "mood_discovery ha device_info m =
     (case m of (mood_key, mood_name, icon) \<Rightarrow>
        (discovery_prefix ha @ ''/number/'' @ device_id ha @ ''/'' @ mood_key @ ''/config'',
         Json (JObj
           [(''name'', JStr mood_name),
            (''unique_id'', JStr (device_id ha @ ''_'' @ mood_key)),
            (''device'', device_info),
            (''command_topic'', JStr (base_topic ha @ ''/mood/'' @ mood_key @ ''/set'')),
            (''state_topic'', JStr (base_topic ha @ ''/mood/'' @ mood_key @ ''/state'')),
            (''min'', JInt 0),
            (''max'', JInt 100),
            (''step'', JInt 1),
            (''mode'', JStr ''slider''),
            (''icon'', JStr icon),
            (''qos'', JInt 1)]),
         True))"

definition buttons :: "(string \<times> string \<times> string) list" where
  "buttons =
     [(''giggle'', ''Giggle'', ''mdi:emoticon-lol''),
      (''puke'', ''Puke'', ''mdi:emoticon-sick''),
      (''lcd_on'', ''LCD On'', ''mdi:eye''),
      (''lcd_off'', ''LCD Off'', ''mdi:eye-off'')]"

definition button_discovery ::
  "'cb ha_mqtt \<Rightarrow> json \<Rightarrow> string \<times> string \<times> string \<Rightarrow> string \<times> payload \<times> bool" where
  "button_discovery ha device_info b =
     (case b of (button_key, button_name, icon) \<Rightarrow>
        (discovery_prefix ha @ ''/button/'' @ device_id ha @ ''/'' @ button_key @ ''/config'',
         Json (JObj
           [(''name'', JStr button_name),
            (''unique_id'', JStr (device_id ha @ ''_'' @ button_key)),
            (''device'', device_info),
            (''command_topic'', JStr (base_topic ha @ ''/button/'' @ button_key @ ''/press'')),
            (''icon'', JStr icon),
            (''qos'', JInt 1),
            (''payload_press'', JStr ''PRESS'')]),
         True))"

text \<open>The four \<open>_publish_*_discovery\<close> helpers return at once without a client; with one
  they publish their messages in order.\<close>

definition publish_helper ::
  "'cb ha_mqtt \<Rightarrow> mqtt_net \<Rightarrow> (string \<times> payload \<times> bool) list \<Rightarrow> exn + mqtt_net" where
  "publish_helper ha net ms = (case client ha of None \<Rightarrow> Inr net | Some cl \<Rightarrow> publish_all net ms)"

definition publish_discovery ::
  "string option \<Rightarrow> 'cb ha_mqtt \<Rightarrow> mqtt_net \<Rightarrow> (exn + unit) \<times> 'cb ha_mqtt \<times> mqtt_net" where
  "publish_discovery mac_address ha net =
     (case client ha of
        None \<Rightarrow> (Inl (RuntimeError ''Not connected to MQTT broker''), ha, net)
      | Some cl \<Rightarrow>
          (let device_info = get_device_info ha mac_address
           in case publish_helper ha net [light_discovery ha device_info] of
                Inl e \<Rightarrow> (Inl e, ha, net)
              | Inr net1 \<Rightarrow>
             (case publish_helper ha net1 [connection_sensor_discovery ha device_info] of
                Inl e \<Rightarrow> (Inl e, ha, net1)
              | Inr net2 \<Rightarrow>
             (case publish_helper ha net2 (map (mood_discovery ha device_info) moods) of
                Inl e \<Rightarrow> (Inl e, ha, net2)
              | Inr net3 \<Rightarrow>
             (case publish_helper ha net3 (map (button_discovery ha device_info) buttons) of
                Inl e \<Rightarrow> (Inl e, ha, net3)
              | Inr net4 \<Rightarrow> (Inr (), ha, net4))))))"

subsection \<open>State updates\<close>

definition publish_antenna_state ::
  "int \<Rightarrow> int \<Rightarrow> int \<Rightarrow> bool \<Rightarrow> 'cb ha_mqtt \<Rightarrow> mqtt_net \<Rightarrow> (exn + unit) \<times> 'cb ha_mqtt \<times> mqtt_net" where
  "publish_antenna_state red green blue on ha net =
     (case client ha of
        None \<Rightarrow> (Inr (), ha, net)
      | Some cl \<Rightarrow>
          (let state = (if on then ''ON'' else ''OFF'');
               rgb_value = str_int red @ '','' @ str_int green @ '','' @ str_int blue
           in case publish net (base_topic ha @ ''/antenna/state'') (Text state) False of
                Inl e \<Rightarrow> (Inl e, ha, net)
              | Inr net1 \<Rightarrow>
                  (case publish net1 (base_topic ha @ ''/antenna/rgb/state'') (Text rgb_value) False of
                     Inl e \<Rightarrow> (Inl e, ha, net1)
                   | Inr net2 \<Rightarrow> (Inr (), ha, net2))))"

definition publish_connection_state ::
  "bool \<Rightarrow> 'cb ha_mqtt \<Rightarrow> mqtt_net \<Rightarrow> (exn + unit) \<times> 'cb ha_mqtt \<times> mqtt_net" where
  "publish_connection_state is_connected ha net =
     (case client ha of
        None \<Rightarrow> (Inr (), ha, net)
      | Some cl \<Rightarrow>
          (let state = (if is_connected then ''ON'' else ''OFF'')
           in case publish net (base_topic ha @ ''/connection/state'') (Text state) False of
                Inl e \<Rightarrow> (Inl e, ha, net)
              | Inr net1 \<Rightarrow> (Inr (), ha, net1)))"

definition publish_mood_state ::
  "string \<Rightarrow> int \<Rightarrow> 'cb ha_mqtt \<Rightarrow> mqtt_net \<Rightarrow> (exn + unit) \<times> 'cb ha_mqtt \<times> mqtt_net" where
  "publish_mood_state mood_type v ha net =
     (case client ha of
        None \<Rightarrow> (Inr (), ha, net)
      | Some cl \<Rightarrow>
          (case publish net (base_topic ha @ ''/mood/'' @ mood_type @ ''/state'') (Text (str_int v)) False of
             Inl e \<Rightarrow> (Inl e, ha, net)
           | Inr net1 \<Rightarrow> (Inr (), ha, net1)))"

subsection \<open>Commands\<close>

text \<open>\<open>subscribe_to_commands\<close>: the callback is stored before the topics are subscribed to,
  so it stays stored when a subscription raises.\<close>

definition subscribe_to_commands ::
  "'cb \<Rightarrow> 'cb ha_mqtt \<Rightarrow> mqtt_net \<Rightarrow> (exn + unit) \<times> 'cb ha_mqtt \<times> mqtt_net" where
  "subscribe_to_commands callback ha net =
     (case client ha of
        None \<Rightarrow> (Inl (RuntimeError ''Not connected to MQTT broker''), ha, net)
      | Some cl \<Rightarrow>
          (let ha1 = ha\<lparr>command_callback := Some callback\<rparr>;
               topics = [base_topic ha @ ''/antenna/set'',
                         base_topic ha @ ''/antenna/rgb/set'',
                         base_topic ha @ ''/mood/+/set'',
                         base_topic ha @ ''/button/+/press'']
           in case subscribe_all net topics of
                Inl e \<Rightarrow> (Inl e, ha1, net)
              | Inr net1 \<Rightarrow>
                  (Inr (),
                   ha1\<lparr>subscribe_task := Some (length (handler_tasks net1))\<rparr>,
                   net1\<lparr>handler_tasks := handler_tasks net1 @ [True]\<rparr>)))"

subsection \<open>A client to run the operations on\<close>

definition test_furby :: "unit ha_mqtt" where
  "test_furby = HomeAssistantMQTT ''localhost'' 1883 None None ''test_furby'' ''Furby Connect''"

definition idle_net :: mqtt_net where
  "idle_net = \<lparr>reachable = True, up = False, published = [], subscribed = [], handler_tasks = []\<rparr>"

text \<open>The second broker state differs from the first by messages published at the end.\<close>

definition only_publishes :: "mqtt_net \<Rightarrow> mqtt_net \<Rightarrow> bool" where
  "only_publishes net net' =
     (net'\<lparr>published := published net\<rparr> = net \<and>
      take (length (published net)) (published net') = published net)"

section \<open>The DLC transfer core\<close>

text \<open>
  The states of a content slot are the ones the guide in \<open>scripts/create_copilot_dlc.py\<close>
  lists: 0 empty, 1 upload in progress, 2 uploaded, 3 active. The code that moves content
  and drives the slots, \<open>pyfluff/dlc.py\<close>, is not among the sources; its components are
  modelled from the specification.
\<close>

datatype slot_state = Empty | Uploading | Uploaded | Active

type_synonym registry = "slot_state list"

type_synonym byte = "8 word"

datatype operation = Load | Activate | Deactivate | Delete

text \<open>The errors of the specification's taxonomy. It names none for \<open>load\<close> and \<open>activate\<close>
  on a slot that is not \<open>Uploaded\<close>; that refusal is \<open>NotUploaded\<close> here.\<close>

datatype transfer_error =
    InvalidSlot
  | PayloadTooLarge
  | SlotBusy
  | SlotInUse
  | NotUploaded
  | NotReady
  | CompletionTimeout
  | Unacknowledged operation
  | ChunkFailed nat

definition active_count :: "registry \<Rightarrow> nat" where
  "active_count r = count_list r Active"

subsection \<open>ChunkScheduler\<close>

definition ceil_div :: "nat \<Rightarrow> nat \<Rightarrow> nat" where
  "ceil_div a b = (a + b - 1) div b"

text \<open>
  Modelled from the spec: the split of \<open>ChunkScheduler.send\<close> (section 4.2), which is code of
  \<open>pyfluff/dlc.py\<close>. The payload is cut into chunks of \<open>n\<close> bytes, the last one possibly
  shorter. A zero-length payload has no chunk.
\<close>

fun split_chunks :: "nat \<Rightarrow> 'a list \<Rightarrow> 'a list list" where
  "split_chunks n xs =
     (if n = 0 \<or> xs = [] then []
      else take n xs # split_chunks n (drop n xs))"

declare split_chunks.simps [simp del]

text \<open>What the scheduler and the session do on the link, in order: the start-transfer
  command, the transport writes and the waits for the device's signals.\<close>

datatype event =
    StartTransfer nat nat bool
  | ReadyWait
  | Write "byte list"
  | AckWait
  | CompletionWait

text \<open>How the device and the link behave during one session: whether the ready and the
  completion signal arrive in time, and, by the offset of a chunk, whether its write
  succeeds and whether its acknowledgment arrives in time.\<close>

record device =
  ready :: bool
  write_ok :: "nat \<Rightarrow> bool"
  ack_ok :: "nat \<Rightarrow> bool"
  complete :: bool

text \<open>
  Modelled from the spec: the pacing of \<open>ChunkScheduler.send\<close> (section 4.2). In streaming
  mode the chunks are written back to back; in step-ack mode each chunk write is followed
  by the wait for its acknowledgment. A failed write or a missing acknowledgment aborts
  with \<open>ChunkFailed\<close> at the chunk's offset. The second component is what \<open>progress_cb\<close> is
  called with: the cumulative bytes sent after each chunk.
\<close>

fun send_chunks ::
  "device \<Rightarrow> bool \<Rightarrow> nat \<Rightarrow> byte list list \<Rightarrow> event list \<times> nat list \<times> (transfer_error + unit)" where
  "send_chunks dev ack_mode off [] = ([], [], Inr ())"
| "send_chunks dev ack_mode off (ch # rest) =
     (if \<not> write_ok dev off then ([Write ch], [], Inl (ChunkFailed off))
      else if ack_mode \<and> \<not> ack_ok dev off then ([Write ch, AckWait], [], Inl (ChunkFailed off))
      else
        (case send_chunks dev ack_mode (off + length ch) rest of
           (es, ps, res) \<Rightarrow>
             (Write ch # (if ack_mode then [AckWait] else []) @ es,
              (off + length ch) # ps, res)))"

text \<open>
  Modelled from the spec: \<open>ChunkScheduler.send\<close> (section 4.2). A zero-length payload is a
  single empty send, which is not one of the chunks, so that no per-chunk acknowledgment
  is awaited for it. \<open>chunk_size\<close> is the scheduler's chunk size, which section 6 requires
  to respect the link's maximum write size. The specification leaves a chunk size of
  zero open; no write of a non-empty payload is attempted then.
\<close>

definition send ::
  "device \<Rightarrow> byte list \<Rightarrow> nat \<Rightarrow> bool \<Rightarrow> event list \<times> nat list \<times> (transfer_error + unit)" where
  "send dev content chunk_size ack_mode =
     (if content = [] then
        (if write_ok dev 0 then ([Write []], [], Inr ()) else ([Write []], [], Inl (ChunkFailed 0)))
      else if chunk_size = 0 then ([], [], Inl (ChunkFailed 0))
      else send_chunks dev ack_mode 0 (split_chunks chunk_size content))"

text \<open>The bytes of the transport writes among the events.\<close>

definition writes :: "event list \<Rightarrow> byte list list" where
  "writes es = concat (map (\<lambda>e. case e of Write ch \<Rightarrow> [ch] | _ \<Rightarrow> []) es)"

subsection \<open>TransferSession\<close>

text \<open>
  Modelled from the spec: \<open>request\<close> of the \<open>TransferSession\<close> state machine (section 4.3),
  code of \<open>pyfluff/dlc.py\<close>. A slot in state \<open>Uploading\<close> is owned by a session in flight.
\<close>

definition request :: "nat \<Rightarrow> nat \<Rightarrow> nat \<Rightarrow> registry \<Rightarrow> transfer_error + registry" where
  "request max_payload slot total_bytes r =
     (if \<not> slot < length r then Inl InvalidSlot
      else if Uploading \<in> set r then Inl SlotBusy
      else if max_payload < total_bytes then Inl PayloadTooLarge
      else Inr (r[slot := Uploading]))"

record session =
  outcome :: "transfer_error + unit"
  events :: "event list"
  progress :: "nat list"
  history :: "registry list"

text \<open>
  Modelled from the spec: one upload from \<open>request\<close> to \<open>Committed\<close> or \<open>Aborted\<close> (sections
  4.3 and 7), code of \<open>pyfluff/dlc.py\<close>. \<open>history\<close> lists the registry as it can be observed
  during the session, the last state being the one the session leaves. An aborted
  session puts the slot back to its state before the session.
\<close>

definition upload ::
  "nat \<Rightarrow> device \<Rightarrow> nat \<Rightarrow> byte list \<Rightarrow> nat \<Rightarrow> bool \<Rightarrow> registry \<Rightarrow> session" where
  "upload max_payload dev slot content chunk_size ack_mode r =
     (case request max_payload slot (length content) r of
        Inl e \<Rightarrow> \<lparr>outcome = Inl e, events = [], progress = [], history = [r]\<rparr>
      | Inr r1 \<Rightarrow>
          (let aborted = [r, r1, r1[slot := r ! slot]];
               start = [StartTransfer slot (length content) ack_mode, ReadyWait]
           in if \<not> ready dev then
                \<lparr>outcome = Inl NotReady, events = start, progress = [], history = aborted\<rparr>
              else
                (case send dev content chunk_size ack_mode of
                   (es, ps, Inl e) \<Rightarrow>
                     \<lparr>outcome = Inl e, events = start @ es, progress = ps, history = aborted\<rparr>
                 | (es, ps, Inr u) \<Rightarrow>
                     if \<not> complete dev then
                       \<lparr>outcome = Inl CompletionTimeout, events = start @ es @ [CompletionWait],
                        progress = ps, history = aborted\<rparr>
                     else
                       \<lparr>outcome = Inr (), events = start @ es @ [CompletionWait],
                        progress = ps, history = [r, r1, r1[slot := Uploaded]]\<rparr>)))"

subsection \<open>SlotLifecycleController\<close>

text \<open>
  Modelled from the spec: the demotion that \<open>activate\<close> and \<open>deactivate\<close> perform (section
  4.4): the slot that is \<open>Active\<close> becomes \<open>Uploaded\<close>.
\<close>

definition demote_active :: "registry \<Rightarrow> registry" where
  "demote_active r = map (\<lambda>s. if s = Active then Uploaded else s) r"

text \<open>
  Modelled from the spec: the four operations of \<open>SlotLifecycleController\<close> (section 4.4),
  code of \<open>pyfluff/dlc.py\<close>. Each is refused before any device I/O when its requirement
  fails, sends one command, and mutates the registry only once the acknowledgment has
  arrived (\<open>acked\<close>); otherwise it reports \<open>Unacknowledged\<close>. (\<open>load\<close> is \<open>load_slot\<close> here.) The second component lists the
  registry as it can be observed during the operation, the last state being the one it
  leaves. \<open>activate\<close> demotes the active slot before it promotes its own.
\<close>

definition load_slot :: "bool \<Rightarrow> nat \<Rightarrow> registry \<Rightarrow> (transfer_error + unit) \<times> registry list" where
  "load_slot acked slot r =
     (if \<not> slot < length r then (Inl InvalidSlot, [r])
      else if r ! slot \<noteq> Uploaded then (Inl NotUploaded, [r])
      else if \<not> acked then (Inl (Unacknowledged Load), [r])
      else (Inr (), [r]))"

definition activate :: "bool \<Rightarrow> nat \<Rightarrow> registry \<Rightarrow> (transfer_error + unit) \<times> registry list" where
  "activate acked slot r =
     (if \<not> slot < length r then (Inl InvalidSlot, [r])
      else if r ! slot \<noteq> Uploaded then (Inl NotUploaded, [r])
      else if \<not> acked then (Inl (Unacknowledged Activate), [r])
      else (Inr (), [r, demote_active r, (demote_active r)[slot := Active]]))"

definition deactivate :: "bool \<Rightarrow> registry \<Rightarrow> (transfer_error + unit) \<times> registry list" where
  "deactivate acked r =
     (if \<not> acked then (Inl (Unacknowledged Deactivate), [r])
      else (Inr (), [r, demote_active r]))"

definition delete :: "bool \<Rightarrow> nat \<Rightarrow> registry \<Rightarrow> (transfer_error + unit) \<times> registry list" where
  "delete acked slot r =
     (if \<not> slot < length r then (Inl InvalidSlot, [r])
      else if r ! slot = Active then (Inl SlotInUse, [r])
      else if \<not> acked then (Inl (Unacknowledged Delete), [r])
      else (Inr (), [r, r[slot := Empty]]))"

text \<open>A call of one of the four operations.\<close>

datatype lifecycle_call = LoadSlot nat | ActivateSlot nat | DeactivateSlot | DeleteSlot nat

fun operation_of :: "lifecycle_call \<Rightarrow> operation" where
  "operation_of (LoadSlot s) = Load"
| "operation_of (ActivateSlot s) = Activate"
| "operation_of DeactivateSlot = Deactivate"
| "operation_of (DeleteSlot s) = Delete"

fun lifecycle :: "bool \<Rightarrow> lifecycle_call \<Rightarrow> registry \<Rightarrow> (transfer_error + unit) \<times> registry list" where
  "lifecycle acked (LoadSlot s) r = load_slot acked s r"
| "lifecycle acked (ActivateSlot s) r = activate acked s r"
| "lifecycle acked DeactivateSlot r = deactivate acked r"
| "lifecycle acked (DeleteSlot s) r = delete acked s r"

text \<open>The requirement of a call holds, so that its command is sent to the device.\<close>

fun command_sent :: "lifecycle_call \<Rightarrow> registry \<Rightarrow> bool" where
  "command_sent (LoadSlot s) r = (s < length r \<and> r ! s = Uploaded)"
| "command_sent (ActivateSlot s) r = (s < length r \<and> r ! s = Uploaded)"
| "command_sent DeactivateSlot r = True"
| "command_sent (DeleteSlot s) r = (s < length r \<and> r ! s \<noteq> Active)"

text \<open>
  Modelled from the spec: the life of the registry (section 3). It starts from the
  device's slot status, in which the device allows at most one active slot, or all
  \<open>Empty\<close>, and is then mutated by upload sessions and lifecycle operations only, one at
  a time. Every state observable during an operation counts as reached.
\<close>

inductive reachable :: "registry \<Rightarrow> bool" where
  default: "reachable (replicate n Empty)"
| device_status: "active_count r \<le> 1 \<Longrightarrow> reachable r"
| session: "reachable r \<Longrightarrow>
     r' \<in> set (history (upload max_payload dev slot content chunk_size ack_mode r)) \<Longrightarrow>
     reachable r'"
| operation: "reachable r \<Longrightarrow> r' \<in> set (snd (lifecycle acked call r)) \<Longrightarrow> reachable r'"

subsection \<open>A device and a registry to run the operations on\<close>

definition good_device :: device where
  "good_device = \<lparr>ready = True, write_ok = (\<lambda>_. True), ack_ok = (\<lambda>_. True), complete = True\<rparr>"

definition four_slots :: registry where
  "four_slots = [Empty, Active, Empty, Empty]"

text \<open>The device answers every wait in time and every write succeeds.\<close>

definition responsive :: "device \<Rightarrow> bool" where
  "responsive dev = (ready dev \<and> complete dev \<and> (\<forall>off. write_ok dev off \<and> ack_ok dev off))"

definition after_upload :: registry where
  "after_upload = [Empty, Active, Uploaded, Empty]"

section \<open>Properties of the device cache\<close>

subsection \<open>Reading\<close>

lemma sort_reverse_mset: "mset (sort_reverse key xs) = mset xs"
  by (simp add: sort_reverse_def)

lemma sort_reverse_sorted: "sorted_wrt (\<lambda>a b. key b \<le> key a) (sort_reverse key xs)"
proof -
  have "sorted (map key (sort_key key (rev xs)))" by simp
  then have "sorted_wrt (\<lambda>a b. key a \<le> key b) (sort_key key (rev xs))"
    by (simp add: sorted_map)
  then show ?thesis
    by (simp add: sort_reverse_def sorted_wrt_rev)
qed

lemma sorted_desc_hd:
  assumes "sorted_wrt (\<lambda>a b. key b \<le> (key a :: real)) (f # fs)" and "g \<in> set (f # fs)"
  shows "key g \<le> key f"
  using assms by auto

text \<open>
  Claim C8. The reading operations \<open>get\<close>, \<open>get_all\<close>, \<open>get_addresses\<close> and
  \<open>get_most_recent\<close> return the world and the cache as they found them: the configuration is
  unchanged and no save is scheduled. \<open>get_all\<close> returns all the entries, newest
  \<open>last_seen\<close> first. \<open>get_most_recent\<close> returns \<open>None\<close> exactly when the cache is empty, and
  otherwise an entry whose \<open>last_seen\<close> no other entry exceeds.
\<close>

theorem reads_do_not_mutate:
  "snd (get addr w c) = (w, c) \<and> snd (get_all w c) = (w, c) \<and>
   snd (get_addresses w c) = (w, c) \<and> snd (get_most_recent w c) = (w, c) \<and>
   mset (fst (get_all w c)) = mset (map snd (config c)) \<and>
   sorted_wrt (\<lambda>a b. last_seen b \<le> last_seen a) (fst (get_all w c)) \<and>
   (fst (get_most_recent w c) = None \<longleftrightarrow> config c = []) \<and>
   (\<forall>f. fst (get_most_recent w c) = Some f \<longrightarrow>
      f \<in> snd ` set (config c) \<and> (\<forall>g \<in> snd ` set (config c). last_seen g \<le> last_seen f))"
proof -
  let ?all = "sort_reverse last_seen (map snd (config c))"
  have m: "mset ?all = mset (map snd (config c))" by (rule sort_reverse_mset)
  have s: "sorted_wrt (\<lambda>a b. last_seen b \<le> last_seen a) ?all" by (rule sort_reverse_sorted)
  have st: "set ?all = snd ` set (config c)"
    using m by (metis set_mset_mset set_map)
  have e: "(?all = []) = (config c = [])"
    using m by (metis mset_zero_iff map_is_Nil_conv)
  have r: "fst (get_most_recent w c) = (case ?all of [] \<Rightarrow> None | f # _ \<Rightarrow> Some f)"
    by (simp add: get_most_recent_def get_all_def)
  have n: "(fst (get_most_recent w c) = None) = (config c = [])"
  proof (cases ?all)
    case Nil
    with e show ?thesis by (simp add: r)
  next
    case (Cons f fs)
    with e show ?thesis by (simp add: r)
  qed
  have g: "\<forall>f. fst (get_most_recent w c) = Some f \<longrightarrow>
      f \<in> snd ` set (config c) \<and> (\<forall>g \<in> snd ` set (config c). last_seen g \<le> last_seen f)"
  proof (intro allI impI)
    fix f assume "fst (get_most_recent w c) = Some f"
    then obtain fs where a: "?all = f # fs" by (auto simp: r split: list.splits)
    then have "f \<in> set ?all" by simp
    moreover have "\<forall>g \<in> set ?all. last_seen g \<le> last_seen f"
      using s a sorted_desc_hd [of last_seen f fs] by auto
    ultimately show "f \<in> snd ` set (config c) \<and> (\<forall>g \<in> snd ` set (config c). last_seen g \<le> last_seen f)"
      unfolding st by simp
  qed
  show ?thesis
    using m s n g by (simp add: get_def get_all_def get_addresses_def get_most_recent_def)
qed

theorem reads_do_not_mutate_witness:
  "fst (get_most_recent demo_world demo_cache) = Some (demo_furby ''BB'' 30) \<and>
   demo_furby ''BB'' 30 \<in> snd ` set (config demo_cache) \<and>
   last_seen (demo_furby ''CC'' 20) \<le> last_seen (demo_furby ''BB'' 30)"
proof -
  have ev: "fst (get_most_recent demo_world demo_cache) = Some (demo_furby ''BB'' 30)"
    by (simp add: get_most_recent_def get_all_def sort_reverse_def demo_cache_def demo_furby_def)
  have mem: "demo_furby ''CC'' 20 \<in> snd ` set (config demo_cache)"
    by (simp add: demo_cache_def)
  from reads_do_not_mutate [of "''BB''" demo_world demo_cache] ev mem show ?thesis
    by blast
qed

subsection \<open>Construction\<close>

lemma init_starts_empty:
  assumes "\<not> stat_fails w path"
    and "disk w path = None \<or> (\<exists>e. read_json w path = Inl e) \<or>
         (\<exists>j e. read_json w path = Inr j \<and> validate j = Inl e)"
  shows "init validate w path =
     Inr \<lparr>cache_file = path, config = [], save_pending = False, save_task = None, save_delay = 1\<rparr>"
  using assms
  by (auto simp: init_def load_def exists_file_def read_json_def split: sum.splits bool.splits)

lemma init_raises_iff:
  "(\<exists>e. init validate w path = Inl e) \<longleftrightarrow> stat_fails w path"
  by (auto simp: init_def load_def exists_file_def split: sum.splits bool.splits)

text \<open>
  Claim C10, where the code departs from it. The claim is that constructing a cache
  never raises, whatever the path. For a file name of 256 characters, which names no
  file, \<open>self.cache_file.exists()\<close> raises \<open>OSError\<close> (file name too long) before the \<open>try\<close>
  of \<open>_load\<close> is entered, and the constructor raises it.
\<close>

theorem init_raises_on_long_name:
  "disk demo_world (replicate 256 CHR ''a'') = None \<and>
   exists_file demo_world (replicate 256 CHR ''a'') = Inl OSError \<and>
   init validate demo_world (replicate 256 CHR ''a'') = Inl OSError"
  by (simp add: init_def load_def exists_file_def demo_world_def)

subsection \<open>Debouncing\<close>

lemma loop_turn_nth:
  "t < length (tasks w) \<Longrightarrow>
   tasks (loop_turn w) ! t = (if tasks w ! t = Cancelling then Done else tasks w ! t)"
  by (simp add: loop_turn_def)

lemma save_async_nth:
  "t < length (tasks w) \<Longrightarrow>
   tasks (save_async w c) ! t =
     (if mkdir_fails w (cache_file c) then tasks w ! t
      else if tasks w ! t = Cancelling then Done else tasks w ! t)"
  by (simp add: save_async_def mkdir_parent_def open_write_def loop_turn_def)

lemma length_tasks_save_async [simp]: "length (tasks (save_async w c)) = length (tasks w)"
  by (simp add: save_async_def mkdir_parent_def open_write_def loop_turn_def)

lemma save_async_Waiting:
  "t < length (tasks w) \<Longrightarrow> (tasks (save_async w c) ! t = Waiting) = (tasks w ! t = Waiting)"
  by (simp add: save_async_nth)


lemma tasks_write_json: "write_json w path j = Inr w' \<Longrightarrow> tasks w' = tasks w"
  by (auto simp: write_json_def mkdir_parent_def open_write_def split: if_splits)

lemma tasks_cancel_save_task_length [simp]:
  "length (tasks (cancel_save_task w c)) = length (tasks w)"
  by (simp add: cancel_save_task_def cancel_def split: option.splits)

lemma cancel_save_task_nth:
  "t < length (tasks w) \<Longrightarrow>
   tasks (cancel_save_task w c) ! t =
     (if save_task c = Some t \<and> tasks w ! t \<noteq> Done then Cancelling else tasks w ! t)"
proof (cases "save_task c")
  case None
  then show ?thesis by (simp add: cancel_save_task_def)
next
  case (Some u)
  assume "t < length (tasks w)"
  then show ?thesis using Some
    by (cases "u = t") (auto simp: cancel_save_task_def cancel_def task_done_def)
qed

lemma pending_tasks_iff:
  "t \<in> set (pending_tasks w) \<longleftrightarrow> t < length (tasks w) \<and> tasks w ! t = Waiting"
  by (auto simp: pending_tasks_def)

lemma debounced_iff:
  "debounced w c \<longleftrightarrow>
     (\<forall>t. save_task c = Some t \<longrightarrow> t < length (tasks w)) \<and>
     (\<forall>t < length (tasks w). tasks w ! t = Waiting \<longrightarrow> save_task c = Some t)"
  by (auto simp: debounced_def list_all_iff pending_tasks_iff split: option.splits)

lemma debouncedD1: "debounced w c \<Longrightarrow> save_task c = Some t \<Longrightarrow> t < length (tasks w)"
  unfolding debounced_iff by blast

lemma debouncedD2:
  "debounced w c \<Longrightarrow> t < length (tasks w) \<Longrightarrow> tasks w ! t = Waiting \<Longrightarrow> save_task c = Some t"
  unfolding debounced_iff by blast

lemma debounced_mono:
  assumes d: "debounced w c"
    and len: "length (tasks w') = length (tasks w)"
    and sub: "\<And>t. t < length (tasks w) \<Longrightarrow> tasks w' ! t = Waiting \<Longrightarrow> tasks w ! t = Waiting"
    and st: "save_task c' = save_task c"
  shows "debounced w' c'"
  unfolding debounced_iff
proof (intro conjI allI impI)
  fix t assume "save_task c' = Some t"
  then have "save_task c = Some t" using st by simp
  from debouncedD1 [OF d this] show "t < length (tasks w')" by (simp only: len)
next
  fix t assume t: "t < length (tasks w')" and w: "tasks w' ! t = Waiting"
  from t len have t': "t < length (tasks w)" by simp
  from sub [OF t' w] have "tasks w ! t = Waiting" .
  from debouncedD2 [OF d t' this] have "save_task c = Some t" .
  with st show "save_task c' = Some t" by simp
qed

lemma cancel_save_task_Waiting:
  assumes "t < length (tasks w)" and "tasks (cancel_save_task w c) ! t = Waiting"
  shows "tasks w ! t = Waiting \<and> save_task c \<noteq> Some t"
proof -
  from assms have e: "(if save_task c = Some t \<and> tasks w ! t \<noteq> Done then Cancelling else tasks w ! t) = Waiting"
    by (simp add: cancel_save_task_nth)
  then have n: "\<not> (save_task c = Some t \<and> tasks w ! t \<noteq> Done)"
    by (cases "save_task c = Some t \<and> tasks w ! t \<noteq> Done") simp_all
  with e have "tasks w ! t = Waiting" by simp
  with n show ?thesis by auto
qed

lemma no_pending_after_cancel:
  assumes "debounced w c"
  shows "pending_tasks (cancel_save_task w c) = []"
proof -
  have "t \<notin> set (pending_tasks (cancel_save_task w c))" for t
  proof
    assume "t \<in> set (pending_tasks (cancel_save_task w c))"
    then have t: "t < length (tasks w)" and w: "tasks (cancel_save_task w c) ! t = Waiting"
      by (simp_all add: pending_tasks_iff)
    from cancel_save_task_Waiting [OF t w] have "tasks w ! t = Waiting" "save_task c \<noteq> Some t"
      by simp_all
    with debouncedD2 [OF assms t] show False by simp
  qed
  then show ?thesis by (meson last_in_set)
qed

lemma pending_tasks_append_Waiting:
  "pending_tasks (w\<lparr>tasks := tasks w @ [Waiting]\<rparr>) = pending_tasks w @ [length (tasks w)]"
proof -
  have "filter (\<lambda>t. (tasks w @ [Waiting]) ! t = Waiting) [0..<length (tasks w)] =
        filter (\<lambda>t. tasks w ! t = Waiting) [0..<length (tasks w)]"
    by (rule filter_cong) (auto simp: nth_append)
  then show ?thesis by (simp add: pending_tasks_def)
qed

lemma schedule_save_rescheduled:
  assumes "debounced w c"
  shows "rescheduled w c (schedule_save w c)"
proof -
  let ?w1 = "cancel_save_task w c"
  have sch: "schedule_save w c =
      (?w1\<lparr>tasks := tasks ?w1 @ [Waiting]\<rparr>,
       c\<lparr>save_pending := True, save_task := Some (length (tasks w))\<rparr>)"
    by (simp add: schedule_save_def create_task_def Let_def)
  have new: "(tasks ?w1 @ [Waiting]) ! length (tasks w) = Waiting"
    by (simp add: nth_append)
  have pend: "pending_tasks (?w1\<lparr>tasks := tasks ?w1 @ [Waiting]\<rparr>) = [length (tasks w)]"
    using no_pending_after_cancel [OF assms] by (simp add: pending_tasks_append_Waiting)
  have old: "case save_task c of None \<Rightarrow> True
     | Some t \<Rightarrow> tasks w ! t = Done \<or> (tasks ?w1 @ [Waiting]) ! t = Cancelling"
  proof (cases "save_task c")
    case None
    then show ?thesis by simp
  next
    case (Some t)
    from debouncedD1 [OF assms Some] have t: "t < length (tasks w)" .
    then show ?thesis using Some
      by (simp add: nth_append cancel_save_task_nth)
  qed
  show ?thesis
    unfolding sch rescheduled_def using new pend old
    by (simp cong: option.case_cong)
qed

lemma rescheduled_debounced:
  "rescheduled w c (w', c') \<Longrightarrow> length (tasks w') = Suc (length (tasks w)) \<Longrightarrow> debounced w' c'"
  by (simp add: rescheduled_def debounced_def)

lemma schedule_save_length:
  "length (tasks (fst (schedule_save w c))) = Suc (length (tasks w))"
  by (simp add: schedule_save_def create_task_def Let_def)

lemma schedule_save_debounced:
  assumes "debounced w c"
  shows "debounced (fst (schedule_save w c)) (snd (schedule_save w c))"
  using schedule_save_rescheduled [OF assms] schedule_save_length [of w c]
  by (cases "schedule_save w c") (simp add: rescheduled_debounced)

lemma debounced_cong:
  "tasks w' = tasks w \<Longrightarrow> save_task c' = save_task c \<Longrightarrow> debounced w' c' = debounced w c"
  unfolding debounced_iff by simp

lemma save_debounced:
  assumes "debounced w c"
  shows "debounced (fst (save w c)) (snd (save w c))"
proof (cases "loop_running w")
  case True
  then show ?thesis using schedule_save_debounced [OF assms] by (simp add: save_def)
next
  case False
  show ?thesis
  proof (cases "write_json w (cache_file c) (model_dump (config c))")
    case (Inl e)
    with False assms show ?thesis by (simp add: save_def)
  next
    case (Inr w')
    from tasks_write_json [OF Inr] assms have "debounced w' c"
      by (simp add: debounced_cong [of w' w c c])
    with False Inr show ?thesis by (simp add: save_def)
  qed
qed

lemma debounced_config [simp]: "debounced w (c\<lparr>config := cfg\<rparr>) = debounced w c"
  by (simp add: debounced_def)

lemma flush_debounced:
  assumes "debounced w c"
  shows "debounced (fst (flush w c)) (snd (flush w c))"
proof (rule debounced_mono [OF assms])
  show "length (tasks (fst (flush w c))) = length (tasks w)"
    by (simp add: flush_def Let_def)
  show "save_task (snd (flush w c)) = save_task c"
    by (simp add: flush_def Let_def)
  fix t assume t: "t < length (tasks w)" and "tasks (fst (flush w c)) ! t = Waiting"
  then have "tasks (cancel_save_task w c) ! t = Waiting"
    by (simp add: flush_def Let_def save_async_Waiting)
  with cancel_save_task_Waiting [OF t] show "tasks w ! t = Waiting" by simp
qed

lemma delayed_save_debounced:
  assumes "debounced w c"
  shows "debounced (fst (delayed_save t w c)) (snd (delayed_save t w c))"
proof (rule debounced_mono [OF assms])
  show "length (tasks (fst (delayed_save t w c))) = length (tasks w)"
    by (simp add: delayed_save_def Let_def)
  show "save_task (snd (delayed_save t w c)) = save_task c"
    by (simp add: delayed_save_def Let_def)
  fix u assume u: "u < length (tasks w)" and "tasks (fst (delayed_save t w c)) ! u = Waiting"
  then show "tasks w ! u = Waiting"
    by (cases "u = t")
      (simp_all add: delayed_save_def Let_def save_async_Waiting split: if_splits)
qed

lemma exec_debounced:
  assumes "debounced (fst s) (snd s)"
  shows "debounced (fst (exec a s)) (snd (exec a s))"
proof (cases s)
  case (Pair w c)
  with assms have d: "debounced w c" by simp
  show ?thesis
  proof (cases a)
    case (AddOrUpdate now ad dn nm ni fw)
    then show ?thesis using Pair d
      by (simp add: add_or_update_def Let_def case_prod_beta save_debounced)
  next
    case (Remove ad)
    then show ?thesis using Pair d
      by (simp add: remove_def Let_def case_prod_beta save_debounced)
  next
    case Clear
    then show ?thesis using Pair d by (simp add: clear_def save_debounced)
  next
    case (UpdateName now ad nm ni)
    then show ?thesis using Pair d
      by (simp add: update_name_def save_debounced split: option.splits)
  next
    case Flush
    then show ?thesis using Pair d by (simp add: flush_debounced)
  next
    case (TaskRuns t)
    then show ?thesis using Pair d by (simp add: delayed_save_debounced)
  qed (use Pair d in \<open>simp_all add: get_def get_all_def get_addresses_def get_most_recent_def\<close>)
qed

lemma run_debounced:
  "debounced (fst s) (snd s) \<Longrightarrow> debounced (fst (run as s)) (snd (run as s))"
  by (induction as arbitrary: s) (simp_all add: exec_debounced)

lemma distinct_all_equal:
  assumes "distinct xs" and "\<forall>y \<in> set xs. y = x"
  shows "length xs \<le> 1"
proof (cases xs)
  case Nil
  then show ?thesis by simp
next
  case (Cons a ys)
  with assms have "set ys \<subseteq> {a}" "a \<notin> set ys" by auto
  then have "ys = []" by (cases ys) auto
  then show ?thesis using Cons by simp
qed

lemma debounced_at_most_one:
  assumes "debounced w c"
  shows "length (pending_tasks w) \<le> 1"
proof (cases "save_task c")
  case None
  with assms have "set (pending_tasks w) = {}"
    by (auto simp: debounced_def list_all_iff)
  then show ?thesis by simp
next
  case (Some t)
  have "distinct (pending_tasks w)" by (simp add: pending_tasks_def)
  moreover have "\<forall>y \<in> set (pending_tasks w). y = t"
    using assms Some by (auto simp: debounced_def list_all_iff)
  ultimately show ?thesis by (rule distinct_all_equal)
qed

lemma rescheduled_config:
  "rescheduled w (c\<lparr>config := cfg\<rparr>) s = rescheduled w c s"
  by (simp add: rescheduled_def)

lemma save_rescheduled:
  assumes "debounced w c" and "loop_running w"
  shows "rescheduled w c (save w (c\<lparr>config := cfg\<rparr>))"
proof -
  have "debounced w (c\<lparr>config := cfg\<rparr>)" using assms(1) by simp
  from schedule_save_rescheduled [OF this] assms(2) show ?thesis
    by (simp add: save_def rescheduled_config)
qed

lemma init_debounced:
  "init validate w path = Inr c \<Longrightarrow> pending_tasks w = [] \<Longrightarrow> debounced w c"
  by (auto simp: init_def debounced_def split: sum.splits)

text \<open>
  Claim C4. Whatever methods are called on a cache and whichever tasks of the loop come
  to their end in between, at most one delayed save is pending afterwards. While an event
  loop runs, \<open>add_or_update\<close>, \<open>clear\<close>, and \<open>remove\<close> and \<open>update_name\<close> on a known address
  cancel the delayed save scheduled before, if it is not over, and schedule a new one,
  which is then the only pending one.
\<close>

theorem debouncing:
  assumes inv: "debounced w c"
  shows
    "debounced (fst (run acts (w, c))) (snd (run acts (w, c))) \<and>
     length (pending_tasks (fst (run acts (w, c)))) \<le> 1 \<and>
     (loop_running w \<longrightarrow>
        rescheduled w c (snd (add_or_update now a d n i fw w c)) \<and>
        rescheduled w c (clear w c) \<and>
        (map_of (config c) a \<noteq> None \<longrightarrow>
           rescheduled w c (snd (remove a w c)) \<and>
           rescheduled w c (update_name now a nm i' w c)))"
proof -
  have r: "debounced (fst (run acts (w, c))) (snd (run acts (w, c)))"
    using run_debounced [of "(w, c)" acts] inv by simp
  have one: "length (pending_tasks (fst (run acts (w, c)))) \<le> 1"
    by (rule debounced_at_most_one [OF r])
  have m1: "loop_running w \<longrightarrow> rescheduled w c (snd (add_or_update now a d n i fw w c))"
    using save_rescheduled [OF inv] by (simp add: add_or_update_def Let_def case_prod_beta)
  have m2: "loop_running w \<longrightarrow> rescheduled w c (clear w c)"
    using save_rescheduled [OF inv] by (simp add: clear_def)
  have m3: "loop_running w \<longrightarrow> map_of (config c) a \<noteq> None \<longrightarrow> rescheduled w c (snd (remove a w c))"
    using save_rescheduled [OF inv] by (simp add: remove_def Let_def case_prod_beta)
  have m4: "loop_running w \<longrightarrow> map_of (config c) a \<noteq> None \<longrightarrow>
      rescheduled w c (update_name now a nm i' w c)"
    using save_rescheduled [OF inv] by (auto simp: update_name_def)
  from r one m1 m2 m3 m4 show ?thesis by blast
qed

theorem debouncing_witness:
  "length (pending_tasks (fst (run [Clear, Remove ''AA'', AddOrUpdate 40 ''DD'' None None None None,
      AddOrUpdate 41 ''EE'' None None None None, TaskRuns 0] (loop_world, demo_cache)))) \<le> 1 \<and>
   rescheduled loop_world demo_cache (clear loop_world demo_cache) \<and>
   pending_tasks (fst (run [Clear, Clear] (loop_world, demo_cache))) = [1]"
proof -
  have inv: "debounced loop_world demo_cache"
    by (simp add: debounced_def pending_tasks_def loop_world_def demo_world_def demo_cache_def)
  have lr: "loop_running loop_world"
    by (simp add: loop_world_def)
  have two: "pending_tasks (fst (run [Clear, Clear] (loop_world, demo_cache))) = [1]"
    by (simp add: clear_def save_def schedule_save_def cancel_save_task_def cancel_def task_done_def
        create_task_def pending_tasks_def loop_world_def demo_world_def demo_cache_def Let_def)
  from debouncing [OF inv, of _ 0 "''AA''" None None None None "''x''" 0] lr two show ?thesis
    by blast
qed




section \<open>Properties of the Home Assistant bridge\<close>

lemma only_publishes_refl: "only_publishes net net"
  by (simp add: only_publishes_def)

lemma only_publishes_publish:
  "publish net t p r = Inr net' \<Longrightarrow> only_publishes net net'"
  by (auto simp: publish_def only_publishes_def split: if_splits)

lemma only_publishes_trans:
  assumes "only_publishes a b" and "only_publishes b c"
  shows "only_publishes a c"
proof -
  from assms(1) have ab: "b\<lparr>published := published a\<rparr> = a"
    and pa: "take (length (published a)) (published b) = published a"
    by (simp_all add: only_publishes_def)
  from assms(2) have bc: "c\<lparr>published := published b\<rparr> = b"
    and pb: "take (length (published b)) (published c) = published b"
    by (simp_all add: only_publishes_def)
  have "c\<lparr>published := published a\<rparr> = (c\<lparr>published := published b\<rparr>)\<lparr>published := published a\<rparr>"
    by simp
  then have 1: "c\<lparr>published := published a\<rparr> = a" using ab bc by simp
  have le: "length (published a) \<le> length (published b)"
    using pa by (metis length_take min.cobounded1)
  have "take (length (published a)) (published c) =
        take (length (published a)) (take (length (published b)) (published c))"
    using le by (simp add: min_absorb1)
  then have 2: "take (length (published a)) (published c) = published a"
    using pa pb by simp
  from 1 2 show ?thesis by (simp add: only_publishes_def)
qed

text \<open>
  Claim C7. \<open>publish_antenna_state\<close>, \<open>publish_connection_state\<close> and \<open>publish_mood_state\<close>
  leave every field of the \<open>HomeAssistantMQTT\<close> object as it was, whether they return or
  raise, and change the broker side only by the messages they publish. With a client
  whose connection is up, they publish the antenna state and colour, the connection
  state, and the mood value, on the topics under \<open>base_topic\<close>.
\<close>

theorem publish_state_frame:
  "fst (snd (publish_antenna_state r g b on ha net)) = ha \<and>
   fst (snd (publish_connection_state cn ha net)) = ha \<and>
   fst (snd (publish_mood_state m v ha net)) = ha \<and>
   only_publishes net (snd (snd (publish_antenna_state r g b on ha net))) \<and>
   only_publishes net (snd (snd (publish_connection_state cn ha net))) \<and>
   only_publishes net (snd (snd (publish_mood_state m v ha net))) \<and>
   (client ha \<noteq> None \<and> up net \<longrightarrow>
      publish_antenna_state r g b on ha net =
        (Inr (), ha, net\<lparr>published := published net @
           [\<lparr>topic = base_topic ha @ ''/antenna/state'',
             payload = Text (if on then ''ON'' else ''OFF''), retain = False\<rparr>,
            \<lparr>topic = base_topic ha @ ''/antenna/rgb/state'',
             payload = Text (str_int r @ '','' @ str_int g @ '','' @ str_int b), retain = False\<rparr>]\<rparr>) \<and>
      publish_connection_state cn ha net =
        (Inr (), ha, net\<lparr>published := published net @
           [\<lparr>topic = base_topic ha @ ''/connection/state'',
             payload = Text (if cn then ''ON'' else ''OFF''), retain = False\<rparr>]\<rparr>) \<and>
      publish_mood_state m v ha net =
        (Inr (), ha, net\<lparr>published := published net @
           [\<lparr>topic = base_topic ha @ ''/mood/'' @ m @ ''/state'',
             payload = Text (str_int v), retain = False\<rparr>]\<rparr>))"
proof -
  have f1: "fst (snd (publish_antenna_state r g b on ha net)) = ha"
    by (simp add: publish_antenna_state_def Let_def split: option.splits sum.splits)
  have f2: "fst (snd (publish_connection_state cn ha net)) = ha"
    by (simp add: publish_connection_state_def Let_def split: option.splits sum.splits)
  have f3: "fst (snd (publish_mood_state m v ha net)) = ha"
    by (simp add: publish_mood_state_def split: option.splits sum.splits)
  have o1: "only_publishes net (snd (snd (publish_antenna_state r g b on ha net)))"
    by (auto simp: publish_antenna_state_def Let_def only_publishes_refl
        split: option.splits sum.splits
        intro: only_publishes_publish only_publishes_trans [OF only_publishes_publish only_publishes_publish])
  have o2: "only_publishes net (snd (snd (publish_connection_state cn ha net)))"
    by (auto simp: publish_connection_state_def Let_def only_publishes_refl
        split: option.splits sum.splits intro: only_publishes_publish)
  have o3: "only_publishes net (snd (snd (publish_mood_state m v ha net)))"
    by (auto simp: publish_mood_state_def only_publishes_refl
        split: option.splits sum.splits intro: only_publishes_publish)
  have c: "client ha \<noteq> None \<and> up net \<longrightarrow>
      publish_antenna_state r g b on ha net =
        (Inr (), ha, net\<lparr>published := published net @
           [\<lparr>topic = base_topic ha @ ''/antenna/state'',
             payload = Text (if on then ''ON'' else ''OFF''), retain = False\<rparr>,
            \<lparr>topic = base_topic ha @ ''/antenna/rgb/state'',
             payload = Text (str_int r @ '','' @ str_int g @ '','' @ str_int b), retain = False\<rparr>]\<rparr>) \<and>
      publish_connection_state cn ha net =
        (Inr (), ha, net\<lparr>published := published net @
           [\<lparr>topic = base_topic ha @ ''/connection/state'',
             payload = Text (if cn then ''ON'' else ''OFF''), retain = False\<rparr>]\<rparr>) \<and>
      publish_mood_state m v ha net =
        (Inr (), ha, net\<lparr>published := published net @
           [\<lparr>topic = base_topic ha @ ''/mood/'' @ m @ ''/state'',
             payload = Text (str_int v), retain = False\<rparr>]\<rparr>)"
    by (auto simp: publish_antenna_state_def publish_connection_state_def publish_mood_state_def
        publish_def Let_def)
  from f1 f2 f3 o1 o2 o3 c show ?thesis by blast
qed

theorem publish_state_frame_witness:
  "publish_antenna_state 255 128 0 True
     (fst (snd (connect test_furby idle_net))) (snd (snd (connect test_furby idle_net))) =
   (Inr (), fst (snd (connect test_furby idle_net)),
    (snd (snd (connect test_furby idle_net)))\<lparr>published :=
       [\<lparr>topic = ''pyfluff/test_furby/antenna/state'', payload = Text ''ON'', retain = False\<rparr>,
        \<lparr>topic = ''pyfluff/test_furby/antenna/rgb/state'', payload = Text ''255,128,0'',
          retain = False\<rparr>]\<rparr>)"
proof -
  let ?ha = "fst (snd (connect test_furby idle_net))"
  let ?net = "snd (snd (connect test_furby idle_net))"
  have c: "client ?ha \<noteq> None \<and> up ?net"
    by (simp add: connect_def Let_def idle_net_def)
  have p: "published ?net = []"
    by (simp add: connect_def Let_def idle_net_def)
  have b: "base_topic ?ha = ''pyfluff/test_furby''"
    by (simp add: connect_def Let_def idle_net_def test_furby_def HomeAssistantMQTT_def)
  have s: "str_int 255 = ''255''" "str_int 128 = ''128''" "str_int 0 = ''0''"
    by (simp_all add: str_int_def str_nat.simps)
  from publish_state_frame [of 255 128 0 True ?ha ?net] c show ?thesis
    by (simp add: p b s)
qed

text \<open>
  Claim C9. Without a client, \<open>publish_discovery\<close> and \<open>subscribe_to_commands\<close> raise
  \<open>RuntimeError\<close>, while \<open>publish_antenna_state\<close>, \<open>publish_connection_state\<close> and
  \<open>publish_mood_state\<close> return normally; in all five cases nothing is published and the
  object and the broker side stay as they were.
\<close>

theorem not_connected_asymmetry:
  assumes "client ha = None"
  shows
    "publish_discovery mac ha net = (Inl (RuntimeError ''Not connected to MQTT broker''), ha, net) \<and>
     subscribe_to_commands cb ha net = (Inl (RuntimeError ''Not connected to MQTT broker''), ha, net) \<and>
     publish_antenna_state r g b on ha net = (Inr (), ha, net) \<and>
     publish_connection_state cn ha net = (Inr (), ha, net) \<and>
     publish_mood_state m v ha net = (Inr (), ha, net)"
  using assms
  by (simp add: publish_discovery_def subscribe_to_commands_def publish_antenna_state_def
      publish_connection_state_def publish_mood_state_def)

theorem not_connected_asymmetry_witness:
  "publish_discovery (Some ''AA:BB:CC:DD:EE:FF'') test_furby idle_net =
     (Inl (RuntimeError ''Not connected to MQTT broker''), test_furby, idle_net) \<and>
   subscribe_to_commands () test_furby idle_net =
     (Inl (RuntimeError ''Not connected to MQTT broker''), test_furby, idle_net) \<and>
   publish_antenna_state 255 128 0 True test_furby idle_net = (Inr (), test_furby, idle_net) \<and>
   publish_connection_state True test_furby idle_net = (Inr (), test_furby, idle_net) \<and>
   publish_mood_state ''excitedness'' 75 test_furby idle_net = (Inr (), test_furby, idle_net)"
proof -
  have "client test_furby = None"
    by (simp add: test_furby_def HomeAssistantMQTT_def)
  from not_connected_asymmetry [OF this] show ?thesis by simp
qed

section \<open>Properties of the DLC transfer core\<close>

subsection \<open>Chunking\<close>

lemma ceil_div_small: "0 < n \<Longrightarrow> 0 < m \<Longrightarrow> m \<le> n \<Longrightarrow> ceil_div m n = 1"
proof -
  assume n: "0 < n" and m: "0 < m" and le: "m \<le> n"
  have e: "m + n - 1 = n + (m - 1)" using m by simp
  have "m - 1 < n" using m le by simp
  then have "(n + (m - 1)) div n = 1" using n by simp
  then show ?thesis unfolding ceil_div_def e .
qed

lemma ceil_div_step: "0 < n \<Longrightarrow> n < m \<Longrightarrow> ceil_div m n = Suc (ceil_div (m - n) n)"
proof -
  assume n: "0 < n" and lt: "n < m"
  have "m + n - 1 = (m - n + n - 1) + n" using lt n by simp
  then have "(m + n - 1) div n = Suc ((m - n + n - 1) div n)"
    using n by (metis div_add_self2 Suc_eq_plus1 less_numeral_extra(3))
  then show ?thesis by (simp add: ceil_div_def)
qed

lemma ceil_div_zero: "0 < n \<Longrightarrow> ceil_div 0 n = 0"
  by (simp add: ceil_div_def)

lemma split_chunks_Nil: "split_chunks n [] = []"
  by (simp add: split_chunks.simps [of n "[]"])

lemma length_split_chunks:
  "0 < n \<Longrightarrow> length (split_chunks n xs) = ceil_div (length xs) n"
proof (induction n xs rule: split_chunks.induct)
  case (1 n xs)
  show ?case
  proof (cases "xs = []")
    case True
    then show ?thesis using "1.prems" by (simp add: split_chunks_Nil ceil_div_zero)
  next
    case False
    then have pos: "0 < length xs" by simp
    have step: "length (split_chunks n xs) = Suc (ceil_div (length xs - n) n)"
      using "1.IH" "1.prems" False by (simp add: split_chunks.simps [of n xs])
    show ?thesis
    proof (cases "length xs \<le> n")
      case True
      then show ?thesis
        using step ceil_div_small [OF "1.prems" pos True] "1.prems" by (simp add: ceil_div_zero)
    next
      case False
      then have "n < length xs" by simp
      from ceil_div_step [OF "1.prems" this] step show ?thesis by simp
    qed
  qed
qed

lemma concat_split_chunks: "0 < n \<Longrightarrow> concat (split_chunks n xs) = xs"
proof (induction n xs rule: split_chunks.induct)
  case (1 n xs)
  show ?case
  proof (cases "xs = []")
    case True
    then show ?thesis by (simp add: split_chunks_Nil)
  next
    case False
    with "1.IH" "1.prems" show ?thesis by (simp add: split_chunks.simps [of n xs])
  qed
qed

lemma split_chunks_bounded:
  "0 < n \<Longrightarrow> ch \<in> set (split_chunks n xs) \<Longrightarrow> 0 < length ch \<and> length ch \<le> n"
proof (induction n xs rule: split_chunks.induct)
  case (1 n xs)
  show ?case
  proof (cases "xs = []")
    case True
    with "1.prems" show ?thesis by (simp add: split_chunks_Nil)
  next
    case False
    with "1.prems" have "ch = take n xs \<or> ch \<in> set (split_chunks n (drop n xs))"
      by (simp add: split_chunks.simps [of n xs])
    then show ?thesis
    proof
      assume "ch = take n xs"
      then show ?thesis using False "1.prems" by simp
    next
      assume "ch \<in> set (split_chunks n (drop n xs))"
      with "1.IH" "1.prems" False show ?thesis by simp
    qed
  qed
qed

lemma split_chunks_full:
  "0 < n \<Longrightarrow> ch \<in> set (butlast (split_chunks n xs)) \<Longrightarrow> length ch = n"
proof (induction n xs rule: split_chunks.induct)
  case (1 n xs)
  show ?case
  proof (cases "xs = []")
    case True
    with "1.prems" show ?thesis by (simp add: split_chunks_Nil)
  next
    case False
    show ?thesis
    proof (cases "split_chunks n (drop n xs) = []")
      case True
      with "1.prems" False show ?thesis by (simp add: split_chunks.simps [of n xs])
    next
      case rest: False
      then have more: "drop n xs \<noteq> []" by (auto simp: split_chunks.simps [of n "drop n xs"])
      from rest "1.prems" False
      have "ch = take n xs \<or> ch \<in> set (butlast (split_chunks n (drop n xs)))"
        by (simp add: split_chunks.simps [of n xs])
      then show ?thesis
      proof
        assume "ch = take n xs"
        then show ?thesis using more by simp
      next
        assume "ch \<in> set (butlast (split_chunks n (drop n xs)))"
        with "1.IH" "1.prems" False show ?thesis by simp
      qed
    qed
  qed
qed

lemma send_chunks_ok:
  assumes "\<forall>off. write_ok dev off \<and> ack_ok dev off"
  shows "send_chunks dev ack_mode off chunks =
     (concat (map (\<lambda>ch. Write ch # (if ack_mode then [AckWait] else [])) chunks),
      map (\<lambda>k. off + length (concat (take (Suc k) chunks))) [0..<length chunks],
      Inr ())"
  using assms
proof (induction chunks arbitrary: off)
  case Nil
  then show ?case by simp
next
  case (Cons ch rest)
  have "map (\<lambda>k. off + length (concat (take (Suc k) (ch # rest)))) [0..<length (ch # rest)] =
        (off + length ch) # map (\<lambda>k. off + length ch + length (concat (take (Suc k) rest))) [0..<length rest]"
    by (simp add: upt_conv_Cons map_Suc_upt [symmetric] del: upt_Suc)
  with Cons show ?case by simp
qed

lemma writes_streaming: "writes (map Write chunks) = chunks"
  by (induction chunks) (simp_all add: writes_def)

lemma writes_step_ack:
  "writes (concat (map (\<lambda>ch. [Write ch, AckWait]) chunks)) = chunks"
  by (induction chunks) (simp_all add: writes_def)

lemma writes_append: "writes (xs @ ys) = writes xs @ writes ys"
  by (simp add: writes_def)

lemma request_ok:
  "slot < length r \<Longrightarrow> Uploading \<notin> set r \<Longrightarrow> total_bytes \<le> max_payload \<Longrightarrow>
   request max_payload slot total_bytes r = Inr (r[slot := Uploading])"
  by (simp add: request_def)

lemma send_ok:
  assumes "0 < chunk_size" and "responsive dev"
  shows "\<exists>ps. send dev content chunk_size ack_mode =
     ((if content = [] then [Write []]
       else concat (map (\<lambda>ch. Write ch # (if ack_mode then [AckWait] else []))
              (split_chunks chunk_size content))), ps, Inr ())"
proof -
  from assms(2) have "\<forall>off. write_ok dev off \<and> ack_ok dev off"
    by (simp add: responsive_def)
  from send_chunks_ok [OF this] this assms(1) show ?thesis
    by (simp add: send_def)
qed

lemma upload_ok:
  assumes cs: "0 < chunk_size"
    and dev: "responsive dev"
    and slot: "slot < length r" and free: "Uploading \<notin> set r"
    and fits: "length content \<le> max_payload"
  shows "events (upload max_payload dev slot content chunk_size ack_mode r) =
           [StartTransfer slot (length content) ack_mode, ReadyWait] @
           (if content = [] then [Write []]
            else concat (map (\<lambda>ch. Write ch # (if ack_mode then [AckWait] else []))
                   (split_chunks chunk_size content))) @ [CompletionWait]"
    and "outcome (upload max_payload dev slot content chunk_size ack_mode r) = Inr ()"
    and "history (upload max_payload dev slot content chunk_size ack_mode r) =
           [r, r[slot := Uploading], r[slot := Uploaded]]"
proof -
  from send_ok [OF cs dev] obtain ps where
    s: "send dev content chunk_size ack_mode =
     ((if content = [] then [Write []]
       else concat (map (\<lambda>ch. Write ch # (if ack_mode then [AckWait] else []))
              (split_chunks chunk_size content))), ps, Inr ())"
    by blast
  from dev have rc: "ready dev" "complete dev" by (simp_all add: responsive_def)
  note rq = request_ok [OF slot free fits]
  show "events (upload max_payload dev slot content chunk_size ack_mode r) =
           [StartTransfer slot (length content) ack_mode, ReadyWait] @
           (if content = [] then [Write []]
            else concat (map (\<lambda>ch. Write ch # (if ack_mode then [AckWait] else []))
                   (split_chunks chunk_size content))) @ [CompletionWait]"
    by (simp add: upload_def rq s rc Let_def)
  show "outcome (upload max_payload dev slot content chunk_size ack_mode r) = Inr ()"
    by (simp add: upload_def rq s rc Let_def)
  show "history (upload max_payload dev slot content chunk_size ack_mode r) =
           [r, r[slot := Uploading], r[slot := Uploaded]]"
    by (simp add: upload_def rq s rc Let_def)
qed

text \<open>
  Claim C1. For every payload and \<open>chunk_size > 0\<close>, an upload that the device answers
  splits the payload into exactly \<open>ceil(payload_size / chunk_size)\<close> chunks, each non-empty
  and of at most \<open>chunk_size\<close> bytes, all but the last of exactly \<open>chunk_size\<close>. A
  zero-length payload is a single empty write and no error. In streaming mode the chunks
  are written back to back and followed by the one completion wait; in step-ack mode
  each chunk write is followed by one acknowledgment wait, before the next write and
  before the completion wait. Either way the upload succeeds and leaves the slot
  \<open>Uploaded\<close>.
\<close>

theorem upload_chunking:
  assumes cs: "0 < chunk_size"
    and dev: "responsive dev"
    and slot: "slot < length r" and free: "Uploading \<notin> set r"
    and fits: "length content \<le> max_payload"
  shows
    "(let chunks = split_chunks chunk_size content;
          streaming = upload max_payload dev slot content chunk_size False r;
          step_ack = upload max_payload dev slot content chunk_size True r
      in length chunks = ceil_div (length content) chunk_size \<and>
         concat chunks = content \<and>
         (\<forall>ch \<in> set chunks. 0 < length ch \<and> length ch \<le> chunk_size) \<and>
         (\<forall>ch \<in> set (butlast chunks). length ch = chunk_size) \<and>
         (content = [] \<longrightarrow>
            events streaming = [StartTransfer slot 0 False, ReadyWait, Write [], CompletionWait] \<and>
            events step_ack = [StartTransfer slot 0 True, ReadyWait, Write [], CompletionWait]) \<and>
         (content \<noteq> [] \<longrightarrow>
            events streaming =
              [StartTransfer slot (length content) False, ReadyWait] @ map Write chunks @
              [CompletionWait] \<and>
            events step_ack =
              [StartTransfer slot (length content) True, ReadyWait] @
              concat (map (\<lambda>ch. [Write ch, AckWait]) chunks) @ [CompletionWait] \<and>
            writes (events streaming) = chunks \<and>
            writes (events step_ack) = chunks) \<and>
         outcome streaming = Inr () \<and> outcome step_ack = Inr () \<and>
         history streaming = [r, r[slot := Uploading], r[slot := Uploaded]] \<and>
         history step_ack = [r, r[slot := Uploading], r[slot := Uploaded]])"
proof -
  let ?chunks = "split_chunks chunk_size content"
  let ?s = "upload max_payload dev slot content chunk_size False r"
  let ?a = "upload max_payload dev slot content chunk_size True r"
  have l: "length ?chunks = ceil_div (length content) chunk_size"
    by (rule length_split_chunks [OF cs])
  have c: "concat ?chunks = content"
    by (rule concat_split_chunks [OF cs])
  have b: "\<forall>ch \<in> set ?chunks. 0 < length ch \<and> length ch \<le> chunk_size"
    using split_chunks_bounded [OF cs] by blast
  have f: "\<forall>ch \<in> set (butlast ?chunks). length ch = chunk_size"
    using split_chunks_full [OF cs] by blast
  have m: "concat (map (\<lambda>ch. [Write ch]) ?chunks) = map Write ?chunks"
    by (induction ?chunks) simp_all
  have e0: "content = [] \<longrightarrow>
      events ?s = [StartTransfer slot 0 False, ReadyWait, Write [], CompletionWait] \<and>
      events ?a = [StartTransfer slot 0 True, ReadyWait, Write [], CompletionWait]"
  proof
    assume "content = []"
    then show "events ?s = [StartTransfer slot 0 False, ReadyWait, Write [], CompletionWait] \<and>
      events ?a = [StartTransfer slot 0 True, ReadyWait, Write [], CompletionWait]"
      using upload_ok(1) [OF cs dev slot free fits, of False]
        upload_ok(1) [OF cs dev slot free fits, of True] by simp
  qed
  have es: "events ?s =
      [StartTransfer slot (length content) False, ReadyWait] @ map Write ?chunks @ [CompletionWait]"
    if "content \<noteq> []"
    using upload_ok(1) [OF cs dev slot free fits, of False] m that by simp
  have ea: "events ?a =
      [StartTransfer slot (length content) True, ReadyWait] @
      concat (map (\<lambda>ch. [Write ch, AckWait]) ?chunks) @ [CompletionWait]"
    if "content \<noteq> []"
    using upload_ok(1) [OF cs dev slot free fits, of True] that by simp
  have ws: "writes (events ?s) = ?chunks" if "content \<noteq> []"
    unfolding es [OF that] writes_append writes_streaming by (simp add: writes_def)
  have wa: "writes (events ?a) = ?chunks" if "content \<noteq> []"
    unfolding ea [OF that] writes_append writes_step_ack by (simp add: writes_def)
  have os: "outcome ?s = Inr ()" and oa: "outcome ?a = Inr ()"
    by (rule upload_ok(2) [OF cs dev slot free fits])+
  have hs: "history ?s = [r, r[slot := Uploading], r[slot := Uploaded]]"
    and ha: "history ?a = [r, r[slot := Uploading], r[slot := Uploaded]]"
    by (rule upload_ok(3) [OF cs dev slot free fits])+
  from l c b f e0 es ea ws wa os oa hs ha show ?thesis
    unfolding Let_def by blast
qed

theorem upload_chunking_witness:
  "length (writes (events (upload 65536 good_device 2 (replicate 1600 0) 200 False four_slots))) = 8 \<and>
   last (events (upload 65536 good_device 2 (replicate 1600 0) 200 False four_slots)) =
     CompletionWait \<and>
   last (history (upload 65536 good_device 2 (replicate 1600 0) 200 False four_slots)) =
     [Empty, Active, Uploaded, Empty]"
proof -
  have cs: "0 < (200::nat)" by simp
  have dev: "responsive good_device" by (simp add: responsive_def good_device_def)
  have slot: "2 < length four_slots" and free: "Uploading \<notin> set four_slots"
    by (simp_all add: four_slots_def)
  have fits: "length (replicate 1600 (0::byte)) \<le> 65536" by simp
  have ne: "replicate 1600 (0::byte) \<noteq> []" by simp
  have cd: "ceil_div (length (replicate 1600 (0::byte))) 200 = 8"
    by (simp add: ceil_div_def)
  have up: "four_slots[2 := Uploaded] = [Empty, Active, Uploaded, Empty]"
    by (simp add: four_slots_def)
  let ?u = "upload 65536 good_device 2 (replicate 1600 0) 200 False four_slots"
  note t = upload_chunking [OF cs dev slot free fits, unfolded Let_def]
  from t have l: "length (split_chunks 200 (replicate 1600 (0::byte))) =
      ceil_div (length (replicate 1600 (0::byte))) 200"
    by blast
  from t ne have w: "writes (events ?u) = split_chunks 200 (replicate 1600 0)"
    by blast
  from t ne have e: "events ?u =
      [StartTransfer 2 (length (replicate 1600 (0::byte))) False, ReadyWait] @
      map Write (split_chunks 200 (replicate 1600 0)) @ [CompletionWait]"
    by blast
  from t have h: "history ?u = [four_slots, four_slots[2 := Uploading], four_slots[2 := Uploaded]]"
    by blast
  have 1: "length (writes (events ?u)) = 8"
    unfolding w l cd ..
  have 2: "last (events ?u) = CompletionWait"
    unfolding e by simp
  have 3: "last (history ?u) = [Empty, Active, Uploaded, Empty]"
    unfolding h by (simp add: up)
  from 1 2 3 show ?thesis by blast
qed

subsection \<open>Slots\<close>

lemma active_count_replicate: "active_count (replicate n Empty) = 0"
  by (induction n) (simp_all add: active_count_def)

lemma active_count_demote: "active_count (demote_active r) = 0"
  by (induction r) (simp_all add: active_count_def demote_active_def)

lemma active_count_update:
  "i < length r \<Longrightarrow>
   active_count (r[i := s]) =
     active_count r - (if r ! i = Active then 1 else 0) + (if s = Active then 1 else 0)"
proof (induction r arbitrary: i)
  case Nil
  then show ?case by simp
next
  case (Cons a r)
  show ?case
  proof (cases i)
    case 0
    then show ?thesis by (simp add: active_count_def)
  next
    case (Suc j)
    with Cons.prems have j: "j < length r" by simp
    have pos: "r ! j = Active \<Longrightarrow> 0 < active_count r"
    proof -
      assume "r ! j = Active"
      with j have "Active \<in> set r" by (metis nth_mem)
      then have "count_list r Active \<noteq> 0" by (simp add: count_list_0_iff)
      then show ?thesis by (simp add: active_count_def)
    qed
    from Cons.IH [OF j] pos show ?thesis
      using Suc by (auto simp: active_count_def)
  qed
qed

lemma active_count_update_le:
  "i < length r \<Longrightarrow> s \<noteq> Active \<Longrightarrow> active_count (r[i := s]) \<le> active_count r"
  by (simp add: active_count_update)

lemma upload_history_le:
  assumes "r' \<in> set (history (upload max_payload dev slot content chunk_size ack_mode r))"
  shows "active_count r' \<le> active_count r"
proof (cases "request max_payload slot (length content) r")
  case (Inl e)
  with assms show ?thesis by (simp add: upload_def)
next
  case (Inr r1)
  then have slot: "slot < length r" and r1: "r1 = r[slot := Uploading]"
    by (auto simp: request_def split: if_splits)
  have "history (upload max_payload dev slot content chunk_size ack_mode r) = [r, r1, r]
      \<or> history (upload max_payload dev slot content chunk_size ack_mode r) =
          [r, r1, r[slot := Uploaded]]"
    by (auto simp: upload_def Inr r1 Let_def split: prod.splits sum.splits)
  with assms have "r' = r \<or> r' = r[slot := Uploading] \<or> r' = r[slot := Uploaded]"
    using r1 by auto
  then show ?thesis
    using active_count_update_le [OF slot, of Uploading] active_count_update_le [OF slot, of Uploaded]
    by auto
qed

lemma activate_history:
  assumes "active_count r \<le> 1" and "r' \<in> set (snd (activate acked slot r))"
  shows "active_count r' \<le> 1"
proof -
  have "active_count ((demote_active r)[slot := Active]) = 1" if "slot < length r"
  proof -
    from that have l: "slot < length (demote_active r)" by (simp add: demote_active_def)
    from that have "demote_active r ! slot \<noteq> Active" by (simp add: demote_active_def)
    with active_count_update [OF l, of Active] show ?thesis
      by (simp add: active_count_demote)
  qed
  with assms show ?thesis
    by (auto simp: activate_def active_count_demote split: if_splits)
qed

lemma lifecycle_history:
  assumes "active_count r \<le> 1" and "r' \<in> set (snd (lifecycle acked call r))"
  shows "active_count r' \<le> 1"
proof (cases call)
  case (LoadSlot s)
  with assms show ?thesis by (auto simp: load_slot_def split: if_splits)
next
  case (ActivateSlot s)
  with assms activate_history [of r r' acked s] show ?thesis by simp
next
  case DeactivateSlot
  with assms show ?thesis by (auto simp: deactivate_def active_count_demote split: if_splits)
next
  case (DeleteSlot s)
  with assms active_count_update_le [of s r Empty] show ?thesis
    by (auto simp: delete_def split: if_splits)
qed

lemma reachable_one_active: "reachable r \<Longrightarrow> active_count r \<le> 1"
proof (induction rule: reachable.induct)
  case (default n)
  then show ?case by (simp add: active_count_replicate)
next
  case (device_status r)
  then show ?case .
next
  case (session r r' max_payload dev slot content chunk_size ack_mode)
  from upload_history_le [OF session.hyps(2)] session.IH show ?case by simp
next
  case (operation r r' acked call)
  from lifecycle_history [OF operation.IH operation.hyps(2)] show ?case .
qed

text \<open>
  Claim C2. In every state that the slot registry reaches, at most one slot is \<open>Active\<close>.
  An acknowledged \<open>activate\<close> of an \<open>Uploaded\<close> slot leaves that slot \<open>Active\<close>, the slot
  that was \<open>Active\<close> before \<open>Uploaded\<close> and every other slot as it was, and no registry
  state that can be observed during the operation has two \<open>Active\<close> slots.
\<close>

theorem one_active_slot:
  "(reachable r \<longrightarrow> active_count r \<le> 1) \<and>
   (reachable r \<and> slot < length r \<and> r ! slot = Uploaded \<longrightarrow>
      fst (activate True slot r) = Inr () \<and>
      length (last (snd (activate True slot r))) = length r \<and>
      last (snd (activate True slot r)) ! slot = Active \<and>
      (\<forall>i < length r. i \<noteq> slot \<longrightarrow>
         last (snd (activate True slot r)) ! i = (if r ! i = Active then Uploaded else r ! i)) \<and>
      (\<forall>r' \<in> set (snd (activate True slot r)). active_count r' \<le> 1))"
proof -
  have inv: "reachable r \<longrightarrow> active_count r \<le> 1"
    using reachable_one_active by blast
  have act: "fst (activate True slot r) = Inr () \<and>
      length (last (snd (activate True slot r))) = length r \<and>
      last (snd (activate True slot r)) ! slot = Active \<and>
      (\<forall>i < length r. i \<noteq> slot \<longrightarrow>
         last (snd (activate True slot r)) ! i = (if r ! i = Active then Uploaded else r ! i)) \<and>
      (\<forall>r' \<in> set (snd (activate True slot r)). active_count r' \<le> 1)"
    if a: "reachable r \<and> slot < length r \<and> r ! slot = Uploaded"
  proof -
    from a have "reachable r" by simp
    then have one: "active_count r \<le> 1" by (rule reachable_one_active)
    from a have e: "activate True slot r =
        (Inr (), [r, demote_active r, (demote_active r)[slot := Active]])"
      by (simp add: activate_def)
    have h: "\<forall>r' \<in> set (snd (activate True slot r)). active_count r' \<le> 1"
      using activate_history [OF one] by blast
    have o: "\<forall>i < length r. i \<noteq> slot \<longrightarrow>
        last (snd (activate True slot r)) ! i = (if r ! i = Active then Uploaded else r ! i)"
      by (simp add: e demote_active_def)
    have f: "fst (activate True slot r) = Inr ()"
      and l: "length (last (snd (activate True slot r))) = length r"
      and s: "last (snd (activate True slot r)) ! slot = Active"
      using a by (simp_all add: e demote_active_def)
    from f l s o h show ?thesis by blast
  qed
  from inv act show ?thesis by blast
qed

theorem one_active_slot_witness:
  "active_count after_upload \<le> 1 \<and>
   last (snd (activate True 2 after_upload)) ! 2 = Active \<and>
   last (snd (activate True 2 after_upload)) ! 1 = Uploaded \<and>
   active_count (last (snd (activate True 2 after_upload))) \<le> 1"
proof -
  have c: "active_count after_upload \<le> 1"
    by (simp add: after_upload_def active_count_def)
  then have r: "reachable after_upload" by (rule reachable.device_status)
  have s: "(2::nat) < length after_upload" "after_upload ! 2 = Uploaded"
    "(1::nat) < length after_upload" "after_upload ! 1 = Active"
    by (simp_all add: after_upload_def)
  have m: "last (snd (activate True 2 after_upload)) \<in> set (snd (activate True 2 after_upload))"
    by (simp add: activate_def s)
  from one_active_slot [of after_upload 2] r s m show ?thesis
    by auto
qed

text \<open>
  Claim C3. A lifecycle operation (\<open>load\<close>, \<open>activate\<close>, \<open>deactivate\<close>, \<open>delete\<close>) whose
  acknowledgment does not arrive in time never reports success and leaves the registry
  as it was, with no other state observable in between; when its command was sent, it
  reports \<open>Unacknowledged\<close> with its own operation.
\<close>

theorem unacknowledged_leaves_registry:
  "snd (lifecycle False call r) = [r] \<and>
   fst (lifecycle False call r) \<noteq> Inr () \<and>
   (command_sent call r \<longrightarrow>
      fst (lifecycle False call r) = Inl (Unacknowledged (operation_of call)))"
  by (cases call) (simp_all add: load_slot_def activate_def deactivate_def delete_def)

theorem unacknowledged_leaves_registry_witness:
  "lifecycle False (ActivateSlot 2) after_upload = (Inl (Unacknowledged Activate), [after_upload]) \<and>
   lifecycle False (DeleteSlot 2) after_upload = (Inl (Unacknowledged Delete), [after_upload]) \<and>
   lifecycle False DeactivateSlot after_upload = (Inl (Unacknowledged Deactivate), [after_upload]) \<and>
   lifecycle False (LoadSlot 2) after_upload = (Inl (Unacknowledged Load), [after_upload])"
proof -
  have s: "command_sent (ActivateSlot 2) after_upload" "command_sent (DeleteSlot 2) after_upload"
    "command_sent DeactivateSlot after_upload" "command_sent (LoadSlot 2) after_upload"
    by (simp_all add: after_upload_def)
  from unacknowledged_leaves_registry [of "ActivateSlot 2" after_upload]
    unacknowledged_leaves_registry [of "DeleteSlot 2" after_upload]
    unacknowledged_leaves_registry [of DeactivateSlot after_upload]
    unacknowledged_leaves_registry [of "LoadSlot 2" after_upload] s
  show ?thesis
    by (metis operation_of.simps prod.collapse)
qed

end
